(* ===== verification/Prelude.thy ===== *)
theory Prelude
  imports Main "HOL-Library.Sublist"
begin

text \<open>
  Shared vocabulary of the development: the Python builtins the two scripts under
  \<open>src/\<close> rely on, written as executable HOL functions with the behaviour CPython
  gives them, and the generic lemmas about them that the component theories use.
  \<^item> \<open>py_split\<close>: \<open>str.split(sep)\<close> with a one-character separator;
  \<^item> \<open>py_index\<close>: list subscription \<open>xs[i]\<close>, negative indices included,
    \<open>None\<close> for \<open>IndexError\<close>;
  \<^item> \<open>py_endswith\<close>: \<open>str.endswith\<close>;
  \<^item> \<open>py_str_int\<close>: \<open>str(i)\<close> for an \<open>int\<close> (decimal, a minus sign for
    negative values);
  \<^item> \<open>py_int\<close>: \<open>int(s)\<close> on an already stripped string (sign, decimal digits,
    single underscores between digits), \<open>None\<close> for \<open>ValueError\<close>.
  Characters are bytes here; the scripts only ever split and parse ASCII text.
\<close>

named_theorems py_simps "evaluation rules of the modelled Python builtins"

section \<open>str.split with a one-character separator\<close>

fun py_split :: "char \<Rightarrow> string \<Rightarrow> string list" where
  "py_split c [] = [[]]"
| "py_split c (x # xs) =
     (if x = c then [] # py_split c xs
      else (case py_split c xs of [] \<Rightarrow> [[x]] | w # ws \<Rightarrow> (x # w) # ws))"

lemma py_split_not_Nil [simp]: "py_split c s \<noteq> []"
  by (induction s) (auto split: list.split)

lemma py_split_no_sep [py_simps]: "c \<notin> set a \<Longrightarrow> py_split c a = [a]"
  by (induction a) auto

lemma py_split_sep_Cons [py_simps]: "py_split c (c # b) = [] # py_split c b"
  by simp

lemma py_split_append_sep [py_simps]:
  "c \<notin> set a \<Longrightarrow> py_split c (a @ c # b) = a # py_split c b"
proof (induction a)
  case Nil
  then show ?case by simp
next
  case (Cons x a)
  then show ?case by auto
qed

lemma py_split_pieces: "w \<in> set (py_split c s) \<Longrightarrow> c \<notin> set w"
proof (induction s arbitrary: w)
  case Nil
  then show ?case by simp
next
  case (Cons x xs)
  then show ?case
    by (auto split: if_splits list.splits)
qed

text \<open>\<open>sep.join(ws)\<close>, the inverse of splitting.\<close>

fun py_join :: "char \<Rightarrow> string list \<Rightarrow> string" where
  "py_join c [] = []"
| "py_join c [w] = w"
| "py_join c (w # v # ws) = w @ c # py_join c (v # ws)"

lemma py_join_Cons: "ws \<noteq> [] \<Longrightarrow> py_join c (w # ws) = w @ c # py_join c ws"
  by (cases ws) auto

lemma py_join_Cons_Cons: "py_join c ((x # w) # ws) = x # py_join c (w # ws)"
  by (cases ws) auto

lemma py_split_join: "py_join c (py_split c s) = s"
proof (induction s)
  case Nil
  then show ?case by simp
next
  case (Cons x xs)
  then show ?case
    by (cases "py_split c xs") (auto simp: py_join_Cons py_join_Cons_Cons)
qed

section \<open>List subscription\<close>

definition py_index :: "'a list \<Rightarrow> int \<Rightarrow> 'a option" where
  "py_index xs i =
     (let n = int (length xs); j = (if i < 0 then n + i else i)
      in if 0 \<le> j \<and> j < n then Some (xs ! nat j) else None)"

lemma py_index_last [py_simps]: "xs \<noteq> [] \<Longrightarrow> py_index xs (-1) = Some (last xs)"
proof -
  assume "xs \<noteq> []"
  then have "nat (int (length xs) - 1) = length xs - 1" by simp
  with \<open>xs \<noteq> []\<close> show ?thesis by (simp add: py_index_def last_conv_nth)
qed

lemma py_index_one [py_simps]:
  "py_index xs 1 = (case xs of _ # y # _ \<Rightarrow> Some y | _ \<Rightarrow> None)"
  by (auto simp: py_index_def split: list.split)

section \<open>str.endswith\<close>

definition py_endswith :: "string \<Rightarrow> string \<Rightarrow> bool" where
  "py_endswith s suf \<longleftrightarrow> suffix suf s"

lemma py_endswith_append [py_simps]: "py_endswith (a @ suf) suf"
  by (auto simp: py_endswith_def suffix_def)

section \<open>Lines of a text file: readlines and writelines\<close>

abbreviation nl :: char where
  "nl \<equiv> CHR 0x0A"

text \<open>\<open>file.readlines()\<close>: the text cut after every newline, the newlines kept.\<close>

fun py_readlines :: "string \<Rightarrow> string list" where
  "py_readlines [] = []"
| "py_readlines (ch # s) =
     (if ch = nl then [ch] # py_readlines s
      else (case py_readlines s of [] \<Rightarrow> [[ch]] | l # ls \<Rightarrow> (ch # l) # ls))"

text \<open>
  The shape of what \<open>readlines\<close> returns: no line is empty, a newline only ends a
  line, and every line but the last ends with one. \<open>writelines\<close> is \<open>concat\<close>.
\<close>

definition lines_wf :: "string list \<Rightarrow> bool" where
  "lines_wf ls \<longleftrightarrow> (\<forall>l \<in> set ls. l \<noteq> [] \<and> nl \<notin> set (butlast l)) \<and> (\<forall>l \<in> set (butlast ls). last l = nl)"

section \<open>str.strip and str.startswith\<close>

text \<open>\<open>str.isspace\<close> on the ASCII range: tab to carriage return, the four separators and space.\<close>

definition py_isspace :: "char \<Rightarrow> bool" where
  "py_isspace ch \<longleftrightarrow> (of_char ch :: nat) \<in> {9, 10, 11, 12, 13, 28, 29, 30, 31, 32}"

definition py_strip :: "string \<Rightarrow> string" where
  "py_strip s = rev (dropWhile py_isspace (rev (dropWhile py_isspace s)))"

definition py_startswith :: "string \<Rightarrow> string \<Rightarrow> bool" where
  "py_startswith s p \<longleftrightarrow> take (length p) s = p"

section \<open>Decimal text of integers: str(i) and int(s)\<close>

definition digit_char :: "nat \<Rightarrow> char" where
  "digit_char d = char_of (48 + d)"

fun nat_str :: "nat \<Rightarrow> string" where
  "nat_str n = (if n < 10 then [digit_char n] else nat_str (n div 10) @ [digit_char (n mod 10)])"

declare nat_str.simps [simp del]

definition py_str_int :: "int \<Rightarrow> string" where
  "py_str_int i = (if i < 0 then CHR ''-'' # nat_str (nat (- i)) else nat_str (nat i))"

definition is_digit :: "char \<Rightarrow> bool" where
  "is_digit ch \<longleftrightarrow> 48 \<le> (of_char ch :: nat) \<and> (of_char ch :: nat) \<le> 57"

definition digits_val :: "string \<Rightarrow> nat" where
  "digits_val ds = foldl (\<lambda>acc d. 10 * acc + (of_char d - 48)) 0 ds"

text \<open>
  The body of a decimal literal as \<open>int()\<close> accepts it: digits, with single
  underscores allowed between two digits (PEP 515).
\<close>

definition py_int_digits :: "string \<Rightarrow> nat option" where
  "py_int_digits s =
     (if s \<noteq> [] \<and> list_all (\<lambda>ch. is_digit ch \<or> ch = CHR ''_'') s
         \<and> hd s \<noteq> CHR ''_'' \<and> last s \<noteq> CHR ''_'' \<and> \<not> sublist ''__'' s
      then Some (digits_val (filter is_digit s)) else None)"

definition py_int :: "string \<Rightarrow> int option" where
  "py_int s =
     (if s \<noteq> [] \<and> hd s = CHR ''-'' then map_option (\<lambda>n. - int n) (py_int_digits (tl s))
      else if s \<noteq> [] \<and> hd s = CHR ''+'' then map_option int (py_int_digits (tl s))
      else map_option int (py_int_digits s))"

lemma digit_char_is_digit: "d < 10 \<Longrightarrow> is_digit (digit_char d)"
  by (simp add: digit_char_def is_digit_def)

lemma of_char_digit_char: "d < 10 \<Longrightarrow> (of_char (digit_char d) :: nat) = 48 + d"
  by (simp add: digit_char_def)

lemma digits_val_snoc: "digits_val (xs @ [d]) = 10 * digits_val xs + (of_char d - 48)"
  by (simp add: digits_val_def)

lemma nat_str_not_Nil [simp]: "nat_str n \<noteq> []"
  by (subst nat_str.simps) simp

lemma nat_str_digits: "list_all is_digit (nat_str n)"
proof (induction n rule: nat_str.induct)
  case (1 n)
  then show ?case
    by (subst nat_str.simps) (auto simp: digit_char_is_digit)
qed

lemma nat_str_val: "digits_val (nat_str n) = n"
proof (induction n rule: nat_str.induct)
  case (1 n)
  show ?case
  proof (cases "n < 10")
    case True
    then show ?thesis
      by (subst nat_str.simps) (simp add: digits_val_def of_char_digit_char)
  next
    case False
    with "1.IH" have "digits_val (nat_str (n div 10)) = n div 10" by simp
    with False show ?thesis
      by (subst nat_str.simps) (simp add: digits_val_snoc of_char_digit_char)
  qed
qed

lemma is_digit_not_sign:
  "is_digit ch \<Longrightarrow> ch \<noteq> CHR ''_'' \<and> ch \<noteq> CHR ''-'' \<and> ch \<noteq> CHR ''+''"
  by (auto simp: is_digit_def)

lemma all_digits_no_double_us:
  assumes "list_all is_digit s"
  shows "\<not> sublist ''__'' s"
proof
  assume "sublist ''__'' s"
  then have "CHR ''_'' \<in> set s" by (auto dest: set_mono_sublist)
  with assms show False by (auto simp: list_all_iff dest: is_digit_not_sign)
qed

lemma digits_no_us: "list_all is_digit s \<Longrightarrow> x \<in> set s \<Longrightarrow> x \<noteq> CHR ''_''"
  by (simp add: list_all_iff is_digit_not_sign)

lemma py_int_digits_nat_str: "py_int_digits (nat_str n) = Some n"
proof -
  let ?s = "nat_str n"
  have d: "list_all is_digit ?s" by (rule nat_str_digits)
  then have ok: "list_all (\<lambda>ch. is_digit ch \<or> ch = CHR ''_'') ?s"
    by (simp add: list_all_iff)
  have h: "hd ?s \<noteq> CHR ''_''" by (rule digits_no_us [OF d]) simp
  have l: "last ?s \<noteq> CHR ''_''" by (rule digits_no_us [OF d]) simp
  have f: "filter is_digit ?s = ?s" using d by (simp add: list_all_iff)
  have "\<not> sublist ''__'' ?s" by (rule all_digits_no_double_us [OF d])
  with ok h l f show ?thesis by (simp add: py_int_digits_def nat_str_val)
qed

lemma nat_str_hd_digit: "is_digit (hd (nat_str n))"
  using nat_str_digits [of n] by (simp add: list_all_iff)

lemma py_str_int_no_us: "CHR ''_'' \<notin> set (py_str_int i)"
  using nat_str_digits [of "nat i"] nat_str_digits [of "nat (- i)"]
  by (auto simp: py_str_int_def list_all_iff dest: is_digit_not_sign)

lemma py_int_py_str_int: "py_int (py_str_int i) = Some i"
proof (cases "i < 0")
  case True
  then show ?thesis
    by (simp add: py_str_int_def py_int_def py_int_digits_nat_str)
next
  case False
  have "hd (nat_str (nat i)) \<noteq> CHR ''-'' \<and> hd (nat_str (nat i)) \<noteq> CHR ''+''"
    using nat_str_hd_digit is_digit_not_sign by blast
  with False show ?thesis
    by (simp add: py_str_int_def py_int_def py_int_digits_nat_str)
qed

lemma py_str_int_inj: "py_str_int a = py_str_int b \<longleftrightarrow> a = b"
  by (metis option.inject py_int_py_str_int)



section \<open>Facts about lines\<close>

lemma concat_py_readlines: "concat (py_readlines s) = s"
proof (induction s)
  case Nil
  then show ?case by simp
next
  case (Cons ch s)
  then show ?case by (auto split: list.split)
qed

lemma py_readlines_append_line:
  "l \<noteq> [] \<Longrightarrow> nl \<notin> set (butlast l) \<Longrightarrow> last l = nl \<or> r = [] \<Longrightarrow>
   py_readlines (l @ r) = l # py_readlines r"
proof (induction l)
  case Nil
  then show ?case by simp
next
  case (Cons ch l)
  show ?case
  proof (cases "l = []")
    case True
    with Cons.prems show ?thesis by (cases "ch = nl") (auto split: list.split)
  next
    case False
    with Cons.prems have "ch \<noteq> nl" and "nl \<notin> set (butlast l)" and "last l = nl \<or> r = []" by auto
    with False Cons.IH show ?thesis by simp
  qed
qed

lemma py_readlines_concat: "lines_wf ls \<Longrightarrow> py_readlines (concat ls) = ls"
proof (induction ls)
  case Nil
  then show ?case by simp
next
  case (Cons l ls)
  from Cons.prems have all: "\<forall>x \<in> set (l # ls). x \<noteq> [] \<and> nl \<notin> set (butlast x)"
    and bl: "\<forall>x \<in> set (butlast (l # ls)). last x = nl"
    by (simp_all only: lines_wf_def) blast+
  have l: "l \<noteq> []" "nl \<notin> set (butlast l)" using all by simp_all
  have wf: "lines_wf ls"
  proof (cases ls)
    case Nil
    then show ?thesis by (simp add: lines_wf_def)
  next
    case (Cons l' ls')
    with all bl show ?thesis by (simp add: lines_wf_def)
  qed
  have "last l = nl \<or> concat ls = []"
  proof (cases ls)
    case Nil
    then show ?thesis by simp
  next
    case (Cons l' ls')
    with bl show ?thesis by simp
  qed
  with l Cons.IH [OF wf] show ?case by (simp add: py_readlines_append_line)
qed

lemma lines_wf_py_readlines: "lines_wf (py_readlines s)"
proof (induction s)
  case Nil
  then show ?case by (simp add: lines_wf_def)
next
  case (Cons ch s)
  show ?case
  proof (cases "ch = nl")
    case True
    with Cons.IH show ?thesis by (cases "py_readlines s") (auto simp: lines_wf_def)
  next
    case False
    show ?thesis
    proof (cases "py_readlines s")
      case Nil
      with False show ?thesis by (simp add: lines_wf_def)
    next
      case (Cons l ls)
      with Cons.IH have "l \<noteq> []" by (simp add: lines_wf_def)
      with Cons.IH Cons False show ?thesis
        by (cases ls) (auto simp: lines_wf_def)
    qed
  qed
qed

end
