(* ===== verification/Config.thy ===== *)
theory Config
  imports Prelude
begin

text \<open>
  The configuration constants of \<open>src/grab_mayhemids.py\<close> (lines 10--17 and the
  local \<open>batch_size\<close> of \<open>main\<close>, line 130) as one record, so that every
  component takes them as a parameter; \<open>default_config\<close> holds the values the
  script ships with.
\<close>

record config =
  start_id :: int
  end_id :: int
  max_concurrent_requests :: nat
  max_retries :: nat
  request_timeout :: nat
  global_timeout :: nat
  batch_size :: int

definition default_config :: config where
  "default_config =
     \<lparr>start_id = 9816000000, end_id = 9816000000, max_concurrent_requests = 25000,
      max_retries = 1000, request_timeout = 10, global_timeout = 30, batch_size = 1000\<rparr>"

end
