(* ===== verification/ResultIndex.thy ===== *)
theory ResultIndex
  imports Prelude
begin

text \<open>
  The index of results already fetched: \<open>existing_files_dict\<close> and
  \<open>load_existing_files\<close> of \<open>src/grab_mayhemids.py\<close> (lines 21--34), and the
  output filename template of line 71 that the index is read back from. The
  dictionary is a map from the \<open>applicationUserId\<close> token (a string) to the
  filename; the directory listing \<open>os.listdir(".")\<close> is a list of names in the
  order the operating system returns them.
\<close>

type_synonym index = "string \<rightharpoonup> string"

text \<open>The body of the loop of lines 28--34: \<open>None\<close> where the file is skipped.\<close>

definition file_key :: "string \<Rightarrow> string option" where
  "file_key fn =
     (if py_endswith fn ''.xml'' then py_index (py_split (CHR ''_'') fn) 1 else None)"

fun load_existing_files :: "index \<Rightarrow> string list \<Rightarrow> index" where
  "load_existing_files d [] = d"
| "load_existing_files d (fn # fns) =
     load_existing_files (case file_key fn of None \<Rightarrow> d | Some k \<Rightarrow> d(k \<mapsto> fn)) fns"

definition result_filename :: "int \<Rightarrow> string \<Rightarrow> string" where
  "result_filename uid mayhem_id =
     ''applicationUserId_'' @ py_str_int uid @ ''_mayhemId_'' @ mayhem_id @ ''.xml''"

text \<open>
  The index agrees with a directory (a map from filenames to contents) when every
  entry names a file of the directory whose name carries the entry's key.
\<close>

definition index_agrees :: "(string \<rightharpoonup> string) \<Rightarrow> index \<Rightarrow> bool" where
  "index_agrees files d \<longleftrightarrow> (\<forall>k fn. d k = Some fn \<longrightarrow> fn \<in> dom files \<and> file_key fn = Some k)"

lemma file_key_result_filename: "file_key (result_filename uid m) = Some (py_str_int uid)"
proof -
  have us: "CHR ''_'' \<notin> set (py_str_int uid)" by (rule py_str_int_no_us)
  have "result_filename uid m =
        ''applicationUserId'' @ CHR ''_'' # py_str_int uid @ CHR ''_'' # (''mayhemId_'' @ m @ ''.xml'')"
    by (simp add: result_filename_def)
  then have "py_split (CHR ''_'') (result_filename uid m) =
             ''applicationUserId'' # py_str_int uid # py_split (CHR ''_'') (''mayhemId_'' @ m @ ''.xml'')"
    using us by (simp add: py_split_append_sep)
  moreover have "py_endswith (result_filename uid m) ''.xml''"
    using py_endswith_append [of "''applicationUserId_'' @ py_str_int uid @ ''_mayhemId_'' @ m"]
    by (simp add: result_filename_def)
  ultimately show ?thesis by (simp add: file_key_def py_index_one)
qed

lemma load_existing_files_lookup:
  "load_existing_files d fns k =
     (case filter (\<lambda>fn. file_key fn = Some k) fns of [] \<Rightarrow> d k | fs \<Rightarrow> Some (last fs))"
proof (induction fns arbitrary: d)
  case Nil
  then show ?case by simp
next
  case (Cons fn fns)
  then show ?case
    by (auto split: option.splits list.splits)
qed

section \<open>Properties of the index\<close>

text \<open>
  C26. The id written into a result filename is read back by the startup scan: the
  key \<open>load_existing_files\<close> takes from \<open>result_filename uid m\<close> is the string
  that \<open>int()\<close> parses back to \<open>uid\<close>, for every id (negative ones included) and
  every \<open>mayhemId\<close>.
\<close>

theorem result_filename_key_roundtrip:
  "map_option py_int (file_key (result_filename uid m)) = Some (Some uid)"
  by (simp add: file_key_result_filename py_int_py_str_int)

text \<open>
  C27. The scan does not check the template: any name ending in \<open>.xml\<close> whose
  second \<open>_\<close>-separated field is an id's string is indexed under that id, so a
  stray file such as \<open>backup_123_old.xml\<close> makes every later run skip id 123
  although no result for it was ever saved.
\<close>

theorem file_key_any_second_field:
  assumes "CHR ''_'' \<notin> set a"
  shows "file_key (a @ CHR ''_'' # py_str_int uid @ CHR ''_'' # b @ ''.xml'') = Some (py_str_int uid)"
proof -
  have us: "CHR ''_'' \<notin> set (py_str_int uid)" by (rule py_str_int_no_us)
  have "py_split (CHR ''_'') (a @ CHR ''_'' # py_str_int uid @ CHR ''_'' # b @ ''.xml'') =
        a # py_str_int uid # py_split (CHR ''_'') (b @ ''.xml'')"
    using assms us by (simp add: py_split_append_sep)
  moreover have "py_endswith (a @ CHR ''_'' # py_str_int uid @ CHR ''_'' # b @ ''.xml'') ''.xml''"
    using py_endswith_append [of "a @ CHR ''_'' # py_str_int uid @ CHR ''_'' # b"] by simp
  ultimately show ?thesis by (simp add: file_key_def py_index_one)
qed

theorem file_key_any_second_field_witness:
  "CHR ''_'' \<notin> set ''backup'' \<and>
   file_key (''backup'' @ CHR ''_'' # py_str_int 123 @ CHR ''_'' # ''old'' @ ''.xml'') = Some (py_str_int 123) \<and>
   ''backup'' @ CHR ''_'' # py_str_int 123 @ CHR ''_'' # ''old'' @ ''.xml'' = ''backup_123_old.xml'' \<and>
   py_str_int 123 = ''123''"
proof -
  have a: "CHR ''_'' \<notin> set ''backup''" by simp
  have s: "py_str_int 123 = ''123''"
    by (simp add: py_str_int_def nat_str.simps digit_char_def char_of_def bit_0)
  show ?thesis using file_key_any_second_field [OF a, of 123 "''old''"] a s by simp
qed

end
