(* ===== verification/FetchWorker.thy ===== *)
theory FetchWorker
  imports Config ResultIndex
begin

text \<open>
  \<open>fetch_user_data\<close> of \<open>src/grab_mayhemids.py\<close> (lines 36--111): one worker, one
  \<open>applicationUserId\<close>. The outside world the coroutine talks to is explicit:
  \<^item> the HTTP service is a \<open>network\<close>, the reply to the attempt number \<open>n\<close> for an
    id (attempt 0 is the first call, attempt \<open>n\<close> the \<open>n\<close>-th retry);
  \<^item> \<open>ET.fromstring\<close> is an \<open>xml_parser\<close> parameter (\<open>None\<close> where it raises
    \<open>ParseError\<close>); \<open>find\<close> and \<open>.text\<close> on the parsed tree are modelled;
  \<^item> the state the coroutine reads and writes is a \<open>world\<close>: the global index, the
    working directory (filename to content) and the trace of observable effects
    (semaphore operations, requests, sleeps, file writes, printed lines) in order.
  An exception that no \<open>except\<close> clause of the function catches is an \<open>Inl\<close>
  result; every \<open>return\<close> of the function is an \<open>Inr\<close> outcome naming the branch.
\<close>

section \<open>Data model\<close>

text \<open>What \<open>await response.text()\<close> gives for a 200 response.\<close>

datatype body_read = BodyText string | PayloadError | DecodeError

text \<open>
  The reply of the service to one request: a response after a latency (seconds) with
  a status and a body, or one of the aiohttp exceptions \<open>session.get\<close> raises.
\<close>

datatype net_reply =
    Reply nat nat body_read
  | ConnectorFailure
  | ResponseFailure
  | OtherClientFailure

type_synonym network = "int \<Rightarrow> nat \<Rightarrow> net_reply"

datatype xml = Element (xml_tag: string) (xml_children: "xml list") (xml_text: "string option")

type_synonym xml_parser = "string \<Rightarrow> xml option"

text \<open>\<open>Element.find(tag)\<close> for a plain tag: the first direct child with that tag.\<close>

definition et_find :: "string \<Rightarrow> xml \<Rightarrow> xml option" where
  "et_find name e = find (\<lambda>ch. xml_tag ch = name) (xml_children e)"

text \<open>Exceptions that leave \<open>fetch_user_data\<close> uncaught.\<close>

datatype exc = ParseError | AttributeError | IndexError | UnicodeDecodeError | ClientError

text \<open>The \<open>return\<close> points of \<open>fetch_user_data\<close>.\<close>

datatype outcome =
    Skipped
  | Saved string
  | NoResources
  | BadStatus nat
  | RequestErrorNoRetry
  | GaveUp

text \<open>
  The lines the script prints, with the values they interpolate: those of
  \<open>fetch_user_data\<close> and the two of \<open>main\<close> around each batch (lines 133, 135).
\<close>

datatype log_line =
    LogSkip int
  | LogPayloadError int nat
  | LogFailed int
  | LogSaved string
  | LogNoResources int
  | LogStatus nat int
  | LogRetry int nat
  | LogRequestError int
  | LogConnectorError int
  | LogTimeout int
  | LogProcessing int int
  | LogFinished int int

datatype effect =
    Acquire
  | Release
  | Get int
  | Sleep nat
  | WriteFile string string
  | Print log_line

record world =
  index :: index
  files :: "string \<rightharpoonup> string"
  trace :: "effect list"

definition emit :: "effect \<Rightarrow> world \<Rightarrow> world" where
  "emit e w = w\<lparr>trace := trace w @ [e]\<rparr>"

section \<open>One attempt\<close>

text \<open>
  Line 50: \<open>asyncio.wait_for(session.get(..., timeout=ClientTimeout(total=TIMEOUT)),
  timeout=GLOBAL_TIMEOUT)\<close>. Either bound firing raises \<open>asyncio.TimeoutError\<close>.
\<close>

datatype get_result =
    Response nat body_read
  | GetTimeout
  | GetConnectorError
  | GetResponseError
  | GetOtherError

definition timed_get :: "config \<Rightarrow> net_reply \<Rightarrow> get_result" where
  "timed_get c r =
     (case r of
        Reply latency status body \<Rightarrow>
          if request_timeout c < latency \<or> global_timeout c < latency then GetTimeout
          else Response status body
      | ConnectorFailure \<Rightarrow> GetConnectorError
      | ResponseFailure \<Rightarrow> GetResponseError
      | OtherClientFailure \<Rightarrow> GetOtherError)"

text \<open>
  How an attempt ends: with a result (after the trailing \<open>asyncio.sleep(1)\<close> of
  line 111 where the code reaches it), or with the decision to retry, taken in the
  world as it is before the backoff sleep.
\<close>

datatype attempt_end = Done "exc + outcome" world | Retry world

text \<open>Lines 63--77 and 111: a 200 response whose body was read.\<close>

definition save_response :: "xml_parser \<Rightarrow> int \<Rightarrow> string \<Rightarrow> world \<Rightarrow> attempt_end" where
  "save_response parse uid content w =
     (case parse content of
        None \<Rightarrow> Done (Inl ParseError) w
      | Some root \<Rightarrow>
          if xml_tag root = ''Resources'' then
            (case et_find ''URI'' root of
               None \<Rightarrow> Done (Inl AttributeError) w
             | Some u \<Rightarrow>
                 (case xml_text u of
                    None \<Rightarrow> Done (Inl AttributeError) w
                  | Some uri \<Rightarrow>
                      (case py_index (py_split (CHR ''/'') uri) (-1) of
                         None \<Rightarrow> Done (Inl IndexError) w
                       | Some mayhem_id \<Rightarrow>
                           let fname = result_filename uid mayhem_id;
                               w1 = emit (WriteFile fname content) w;
                               w2 = w1\<lparr>files := (files w1)(fname \<mapsto> content)\<rparr>;
                               w3 = emit (Print (LogSaved fname)) w2;
                               w4 = w3\<lparr>index := (index w3)(py_str_int uid \<mapsto> fname)\<rparr>
                           in Done (Inr (Saved fname)) (emit (Sleep 1) w4))))
          else Done (Inr NoResources) (emit (Sleep 1) (emit (Print (LogNoResources uid)) w)))"

text \<open>
  Lines 50--111 for one call of the function, inside \<open>async with semaphore\<close>: the
  request, then the branch the reply selects. \<open>n\<close> is \<open>MAX_RETRIES - retries\<close>,
  the exponent of the backoff and, plus one, the number printed as "retries left".
\<close>

definition attempt :: "config \<Rightarrow> network \<Rightarrow> xml_parser \<Rightarrow> int \<Rightarrow> nat \<Rightarrow> world \<Rightarrow> attempt_end" where
  "attempt c net parse uid retries w0 =
     (let n = max_retries c - retries;
          w = emit (Get uid) w0
      in case timed_get c (net uid n) of
           Response status body \<Rightarrow>
             if status = 200 then
               (case body of
                  BodyText content \<Rightarrow> save_response parse uid content w
                | PayloadError \<Rightarrow>
                    let w' = emit (Print (LogPayloadError uid (n + 1))) w in
                    if 0 < retries then Retry w'
                    else Done (Inr GaveUp) (emit (Print (LogFailed uid)) w')
                | DecodeError \<Rightarrow> Done (Inl UnicodeDecodeError) w)
             else
               (let w' = emit (Print (LogStatus status uid)) w in
                if status \<in> {502, 503, 504} \<and> 0 < retries
                then Retry (emit (Print (LogRetry uid (n + 1))) w')
                else Done (Inr (BadStatus status)) (emit (Sleep 1) w'))
         | GetResponseError \<Rightarrow>
             let w' = emit (Print (LogRequestError uid)) w in
             if 0 < retries then Retry (emit (Print (LogRetry uid (n + 1))) w')
             else Done (Inr RequestErrorNoRetry) (emit (Sleep 1) w')
         | GetConnectorError \<Rightarrow>
             let w' = emit (Print (LogConnectorError uid)) w in
             if 0 < retries then Retry w'
             else Done (Inr GaveUp) (emit (Print (LogFailed uid)) w')
         | GetTimeout \<Rightarrow>
             let w' = emit (Print (LogTimeout uid)) w in
             if 0 < retries then Retry w'
             else Done (Inr GaveUp) (emit (Print (LogFailed uid)) w')
         | GetOtherError \<Rightarrow> Done (Inl ClientError) w)"

lemma attempt_Retry_pos: "attempt c net parse uid retries w = Retry w' \<Longrightarrow> 0 < retries"
  by (auto simp: attempt_def save_response_def Let_def
      split: get_result.splits body_read.splits if_splits option.splits)

section \<open>The whole function\<close>

text \<open>
  The skip test of line 38, then \<open>async with semaphore\<close> around one attempt; a retry
  sleeps \<open>2 ** (MAX_RETRIES - retries)\<close> and calls the function again with
  \<open>retries - 1\<close> while the semaphore is still held, and every level releases its own
  permit on the way out, whatever the result.
\<close>

function fetch_user_data ::
  "config \<Rightarrow> network \<Rightarrow> xml_parser \<Rightarrow> int \<Rightarrow> nat \<Rightarrow> world \<Rightarrow> (exc + outcome) \<times> world" where
  "fetch_user_data c net parse uid retries w =
     (if py_str_int uid \<in> dom (index w) then (Inr Skipped, emit (Print (LogSkip uid)) w)
      else
        (case attempt c net parse uid retries (emit Acquire w) of
           Done r w' \<Rightarrow> (r, emit Release w')
         | Retry w' \<Rightarrow>
             (let (r, w'') = fetch_user_data c net parse uid (retries - 1)
                               (emit (Sleep (2 ^ (max_retries c - retries))) w')
              in (r, emit Release w''))))"
  by pat_completeness auto
termination
  by (relation "measure (\<lambda>(c, net, parse, uid, retries, w). retries)")
     (auto dest: attempt_Retry_pos)

declare fetch_user_data.simps [simp del]


section \<open>Characteristic equations\<close>

lemma index_emit [simp]: "index (emit e w) = index w"
  and files_emit [simp]: "files (emit e w) = files w"
  and trace_emit [simp]: "trace (emit e w) = trace w @ [e]"
  by (simp_all add: emit_def)

lemma emit_trace_append: "emit e w = w\<lparr>trace := trace w @ [e]\<rparr>"
  by (simp add: emit_def)

lemma fetch_user_data_skip:
  "py_str_int uid \<in> dom (index w) \<Longrightarrow>
   fetch_user_data c net parse uid r w = (Inr Skipped, emit (Print (LogSkip uid)) w)"
  by (simp add: fetch_user_data.simps)

lemma fetch_user_data_Done:
  "py_str_int uid \<notin> dom (index w) \<Longrightarrow> attempt c net parse uid r (emit Acquire w) = Done res w' \<Longrightarrow>
   fetch_user_data c net parse uid r w = (res, emit Release w')"
  by (simp add: fetch_user_data.simps)

lemma fetch_user_data_Retry:
  "py_str_int uid \<notin> dom (index w) \<Longrightarrow> attempt c net parse uid r (emit Acquire w) = Retry w' \<Longrightarrow>
   fetch_user_data c net parse uid r w =
     (let (res, w'') = fetch_user_data c net parse uid (r - 1) (emit (Sleep (2 ^ (max_retries c - r))) w')
      in (res, emit Release w''))"
  by (simp add: fetch_user_data.simps)

lemma attempt_Retry_frame:
  "attempt c net parse uid r w = Retry w' \<Longrightarrow>
   index w' = index w \<and> files w' = files w \<and> (\<exists>t. w' = w\<lparr>trace := trace w @ t\<rparr>)"
  by (auto simp: attempt_def save_response_def Let_def emit_def
      split: get_result.splits body_read.splits if_splits option.splits)

lemma timed_get_Reply_in_time:
  "lat \<le> request_timeout c \<Longrightarrow> lat \<le> global_timeout c \<Longrightarrow>
   timed_get c (Reply lat st b) = Response st b"
  by (simp add: timed_get_def)



lemma timed_get_inner_bound:
  "request_timeout c \<le> global_timeout c \<Longrightarrow>
   timed_get c r =
     (case r of
        Reply latency status body \<Rightarrow> if request_timeout c < latency then GetTimeout else Response status body
      | ConnectorFailure \<Rightarrow> GetConnectorError
      | ResponseFailure \<Rightarrow> GetResponseError
      | OtherClientFailure \<Rightarrow> GetOtherError)"
  by (cases r) (auto simp: timed_get_def)

text \<open>What one attempt that ends does to the index and the directory.\<close>

definition saves :: "int \<Rightarrow> world \<Rightarrow> exc + outcome \<Rightarrow> world \<Rightarrow> bool" where
  "saves uid w res w' \<longleftrightarrow>
     (\<exists>f content. res = Inr (Saved f) \<and> file_key f = Some (py_str_int uid)
        \<and> index w' = (index w)(py_str_int uid \<mapsto> f) \<and> files w' = (files w)(f \<mapsto> content))"

lemma attempt_Done_effect:
  "attempt c net parse uid r w = Done res w' \<Longrightarrow>
   (index w' = index w \<and> files w' = files w \<and> (\<forall>f. res \<noteq> Inr (Saved f))) \<or> saves uid w res w'"
  by (auto simp: attempt_def save_response_def Let_def saves_def file_key_result_filename
      split: get_result.splits body_read.splits if_splits option.splits)

lemma fetch_user_data_effect:
  "fetch_user_data c net parse uid r w = (res, w') \<Longrightarrow>
   (index w' = index w \<and> files w' = files w \<and> (\<forall>f. res \<noteq> Inr (Saved f))) \<or> saves uid w res w'"
proof (induction c net parse uid r w arbitrary: res w' rule: fetch_user_data.induct)
  case (1 c net parse uid r w)
  show ?case
  proof (cases "py_str_int uid \<in> dom (index w)")
    case True
    with "1.prems" show ?thesis by (auto simp: fetch_user_data_skip)
  next
    case False
    show ?thesis
    proof (cases "attempt c net parse uid r (emit Acquire w)")
      case (Done res0 w0)
      with False "1.prems" have "res = res0" and "w' = emit Release w0"
        by (simp_all add: fetch_user_data_Done)
      with attempt_Done_effect [OF Done] show ?thesis
        by (auto simp: saves_def)
    next
      case (Retry w0)
      obtain res1 w1 where rec: "fetch_user_data c net parse uid (r - 1)
          (emit (Sleep (2 ^ (max_retries c - r))) w0) = (res1, w1)"
        by fastforce
      with False Retry "1.prems" have "res = res1" and "w' = emit Release w1"
        by (simp_all add: fetch_user_data_Retry)
      moreover have "index w0 = index w \<and> files w0 = files w"
        using attempt_Retry_frame [OF Retry] by simp
      moreover note "1.IH" [OF False Retry rec]
      ultimately show ?thesis by (auto simp: saves_def)
    qed
  qed
qed

lemma saves_index_agrees:
  assumes agree: "index_agrees (files w) (index w)" and sv: "saves uid w res w'"
  shows "index_agrees (files w') (index w')"
proof -
  from sv obtain f content where fk: "file_key f = Some (py_str_int uid)"
    and ix: "index w' = (index w)(py_str_int uid \<mapsto> f)" and fs: "files w' = (files w)(f \<mapsto> content)"
    by (auto simp: saves_def)
  show ?thesis unfolding index_agrees_def
  proof (intro allI impI)
    fix k fn
    assume k: "index w' k = Some fn"
    show "fn \<in> dom (files w') \<and> file_key fn = Some k"
    proof (cases "k = py_str_int uid")
      case True
      with k ix fk fs show ?thesis by simp
    next
      case False
      with k ix have "index w k = Some fn" by simp
      with agree fs show ?thesis by (auto simp: index_agrees_def)
    qed
  qed
qed

section \<open>Observations on traces\<close>

fun is_request :: "effect \<Rightarrow> bool" where
  "is_request (Get _) = True"
| "is_request _ = False"

definition requests :: "effect list \<Rightarrow> nat" where
  "requests tr = length (filter is_request tr)"

definition sleeps :: "effect list \<Rightarrow> nat list" where
  "sleeps tr = [d. Sleep d \<leftarrow> tr]"

definition retry_notes :: "effect list \<Rightarrow> nat list" where
  "retry_notes tr = [k. Print (LogRetry _ k) \<leftarrow> tr]"

lemmas trace_observers = requests_def sleeps_def retry_notes_def

lemma fetch_retry_trace:
  assumes "py_str_int uid \<notin> dom (index w)"
    and "attempt c net parse uid r (emit Acquire w) = Retry (w\<lparr>trace := trace w @ Acquire # p\<rparr>)"
    and "fetch_user_data c net parse uid (r - 1)
           (w\<lparr>trace := trace w @ Acquire # p @ [Sleep (2 ^ (max_retries c - r))]\<rparr>) =
         (res, w\<lparr>trace := trace w @ Acquire # p @ [Sleep (2 ^ (max_retries c - r))] @ t\<rparr>)"
  shows "fetch_user_data c net parse uid r w =
           (res, w\<lparr>trace := trace w @ Acquire # p @ Sleep (2 ^ (max_retries c - r)) # t @ [Release]\<rparr>)"
  using assms by (simp add: fetch_user_data_Retry emit_def)

lemma backoff_sleeps_Cons:
  "Suc r \<le> m \<Longrightarrow> 2 ^ (m - Suc r) # map (\<lambda>i. 2 ^ i) [m - r..<m] = map (\<lambda>i. (2::nat) ^ i) [m - Suc r..<m]"
  by (simp add: upt_conv_Cons Suc_diff_Suc)




section \<open>Fixtures for the witnesses\<close>

text \<open>
  A parser and a service used to instantiate the theorems below at concrete inputs:
  the parser knows three documents; the service answers id 7 with a document whose
  root is not \<open>Resources\<close>, id 8 with malformed XML, and every other id first with
  a 503 and then with a valid \<open>Resources\<close> document.
\<close>

definition ex_parse :: xml_parser where
  "ex_parse s =
     (if s = ''<Resources/>'' then Some (Element ''Resources'' [Element ''URI'' [] (Some ''u/v/m77'')] None)
      else if s = ''<Error/>'' then Some (Element ''Error'' [] None)
      else None)"

definition ex_net :: network where
  "ex_net uid n =
     (if uid = 7 then Reply 1 200 (BodyText ''<Error/>'')
      else if uid = 8 then Reply 1 200 (BodyText ''<bad'')
      else if n = 0 then Reply 1 503 (BodyText [])
      else Reply 1 200 (BodyText ''<Resources/>''))"

definition small_config :: config where
  "small_config = default_config\<lparr>max_retries := 2\<rparr>"

lemmas fetch_eval = fetch_user_data.simps attempt_def save_response_def timed_get_def et_find_def
  emit_def Let_def result_filename_def py_str_int_def nat_str.simps digit_char_def char_of_def bit_0
  py_index_def ex_net_def ex_parse_def default_config_def small_config_def

section \<open>Properties of one worker\<close>

text \<open>
  C1. An id whose string form is already a key of the index is skipped before any
  network I/O: the only effect is the printed line, no semaphore operation and no
  request; the index and the directory are unchanged.
\<close>

theorem fetch_skips_indexed_id:
  "py_str_int uid \<in> dom (index w) \<Longrightarrow>
   fetch_user_data c net parse uid r w = (Inr Skipped, w\<lparr>trace := trace w @ [Print (LogSkip uid)]\<rparr>)"
  by (simp add: fetch_user_data_skip emit_def)

theorem fetch_skips_indexed_id_witness:
  "py_str_int 5 \<in> dom (index \<lparr>index = [''5'' \<mapsto> ''f.xml''], files = Map.empty, trace = []\<rparr>) \<and>
   fetch_user_data default_config ex_net ex_parse 5 1000
     \<lparr>index = [''5'' \<mapsto> ''f.xml''], files = Map.empty, trace = []\<rparr> =
   (Inr Skipped, \<lparr>index = [''5'' \<mapsto> ''f.xml''], files = Map.empty, trace = [Print (LogSkip 5)]\<rparr>)"
proof -
  have h: "py_str_int 5 \<in> dom (index \<lparr>index = [''5'' \<mapsto> ''f.xml''], files = Map.empty, trace = []\<rparr>)"
    by (simp add: fetch_eval)
  show ?thesis using fetch_skips_indexed_id [OF h, of default_config ex_net ex_parse 1000] h by simp
qed

text \<open>
  C2. A 200 response within the time bounds whose body parses to a \<open>Resources\<close>
  root with a \<open>URI\<close> child saves the body verbatim under
  \<open>applicationUserId_<id>_mayhemId_<last URI segment>.xml\<close>, records that filename
  in the index under the id's string, and leaves the exact trace: acquire, one
  request, the write, the printed line, the one-second throttle, release.
\<close>

theorem fetch_saves_resources:
  assumes "py_str_int uid \<notin> dom (index w)"
    and "net uid (max_retries c - r) = Reply lat 200 (BodyText content)"
    and "lat \<le> request_timeout c" and "lat \<le> global_timeout c"
    and "parse content = Some root" and "xml_tag root = ''Resources''"
    and "et_find ''URI'' root = Some u" and "xml_text u = Some uri"
    and "fname = result_filename uid (last (py_split (CHR ''/'') uri))"
  shows "fetch_user_data c net parse uid r w =
           (Inr (Saved fname),
            w\<lparr>index := (index w)(py_str_int uid \<mapsto> fname),
              files := (files w)(fname \<mapsto> content),
              trace := trace w @ [Acquire, Get uid, WriteFile fname content,
                                  Print (LogSaved fname), Sleep 1, Release]\<rparr>)"
proof -
  have "py_index (py_split (CHR ''/'') uri) (-1) = Some (last (py_split (CHR ''/'') uri))"
    by (simp add: py_index_last)
  with assms(2-9) have "attempt c net parse uid r (emit Acquire w) =
        Done (Inr (Saved fname))
         (emit (Sleep 1) ((emit (Print (LogSaved fname))
            ((emit (WriteFile fname content) (emit (Get uid) (emit Acquire w)))
               \<lparr>files := (files w)(fname \<mapsto> content)\<rparr>))
             \<lparr>index := (index w)(py_str_int uid \<mapsto> fname)\<rparr>))"
    by (simp add: attempt_def save_response_def timed_get_Reply_in_time Let_def)
  with assms(1) show ?thesis by (simp add: fetch_user_data_Done emit_def)
qed

theorem fetch_saves_resources_witness:
  "py_str_int 5 \<notin> dom (index \<lparr>index = Map.empty, files = Map.empty, trace = []\<rparr>) \<and>
   ex_net 5 (max_retries default_config - 999) = Reply 1 200 (BodyText ''<Resources/>'') \<and>
   fetch_user_data default_config ex_net ex_parse 5 999 \<lparr>index = Map.empty, files = Map.empty, trace = []\<rparr> =
     (Inr (Saved ''applicationUserId_5_mayhemId_m77.xml''),
      \<lparr>index = [''5'' \<mapsto> ''applicationUserId_5_mayhemId_m77.xml''],
       files = [''applicationUserId_5_mayhemId_m77.xml'' \<mapsto> ''<Resources/>''],
       trace = [Acquire, Get 5, WriteFile ''applicationUserId_5_mayhemId_m77.xml'' ''<Resources/>'',
                Print (LogSaved ''applicationUserId_5_mayhemId_m77.xml''), Sleep 1, Release]\<rparr>)"
proof -
  have f: "''applicationUserId_5_mayhemId_m77.xml'' = result_filename 5 (last (py_split (CHR ''/'') ''u/v/m77''))"
    by (simp add: fetch_eval)
  show ?thesis
    using fetch_saves_resources [where uid = 5 and w = "\<lparr>index = Map.empty, files = Map.empty, trace = []\<rparr>" and c = default_config and r = 999
        and net = ex_net and lat = 1 and content = "''<Resources/>''" and parse = ex_parse
        and root = "Element ''Resources'' [Element ''URI'' [] (Some ''u/v/m77'')] None"
        and u = "Element ''URI'' [] (Some ''u/v/m77'')" and uri = "''u/v/m77''", OF _ _ _ _ _ _ _ _ f]
    by (simp add: fetch_eval)
qed

text \<open>
  C3. Saving is idempotent for the run: once a call has returned \<open>Saved\<close>, any later
  call for the same id on the resulting world, whatever the network and the parser,
  is skipped without a request.
\<close>

theorem saved_then_skipped:
  assumes "fetch_user_data c net parse uid r w = (Inr (Saved f), w')"
  shows "fetch_user_data c' net' parse' uid r' w' = (Inr Skipped, emit (Print (LogSkip uid)) w')"
proof -
  have "saves uid w (Inr (Saved f)) w'"
    using fetch_user_data_effect [OF assms] by auto
  then have "py_str_int uid \<in> dom (index w')" by (auto simp: saves_def)
  then show ?thesis by (rule fetch_user_data_skip)
qed

theorem saved_then_skipped_witness:
  "fetch_user_data default_config ex_net ex_parse 5 1000 \<lparr>index = Map.empty, files = Map.empty, trace = []\<rparr> =
     (Inr (Saved ''applicationUserId_5_mayhemId_m77.xml''),
      snd (fetch_user_data default_config ex_net ex_parse 5 1000 \<lparr>index = Map.empty, files = Map.empty, trace = []\<rparr>)) \<and>
   fst (fetch_user_data default_config (\<lambda>_ _. ConnectorFailure) ex_parse 5 1000
      (snd (fetch_user_data default_config ex_net ex_parse 5 1000 \<lparr>index = Map.empty, files = Map.empty, trace = []\<rparr>))) = Inr Skipped"
proof -
  have h: "fetch_user_data default_config ex_net ex_parse 5 1000 \<lparr>index = Map.empty, files = Map.empty, trace = []\<rparr> =
     (Inr (Saved ''applicationUserId_5_mayhemId_m77.xml''),
      snd (fetch_user_data default_config ex_net ex_parse 5 1000 \<lparr>index = Map.empty, files = Map.empty, trace = []\<rparr>))"
    by (simp add: fetch_eval)
  show ?thesis using saved_then_skipped [OF h, of default_config "\<lambda>_ _. ConnectorFailure" ex_parse 1000] h
    by simp
qed

text \<open>
  C4. A 200 response whose root element is not \<open>Resources\<close> is a terminal
  rejection: exactly one request, no retry, nothing written, and the one-second
  throttle of line 111 still taken.
\<close>

theorem fetch_not_resources_single_request:
  assumes "py_str_int uid \<notin> dom (index w)"
    and "net uid (max_retries c - r) = Reply lat 200 (BodyText content)"
    and "lat \<le> request_timeout c" and "lat \<le> global_timeout c"
    and "parse content = Some root" and "xml_tag root \<noteq> ''Resources''"
  shows "fetch_user_data c net parse uid r w =
           (Inr NoResources,
            w\<lparr>trace := trace w @ [Acquire, Get uid, Print (LogNoResources uid), Sleep 1, Release]\<rparr>)"
proof -
  have "attempt c net parse uid r (emit Acquire w) =
        Done (Inr NoResources) (emit (Sleep 1) (emit (Print (LogNoResources uid)) (emit (Get uid) (emit Acquire w))))"
    using assms(2-6) by (simp add: attempt_def save_response_def timed_get_Reply_in_time)
  with assms(1) show ?thesis by (simp add: fetch_user_data_Done emit_def)
qed
theorem fetch_not_resources_single_request_witness:
  "py_str_int 7 \<notin> dom (index \<lparr>index = Map.empty, files = Map.empty, trace = []\<rparr>) \<and>
   fetch_user_data default_config ex_net ex_parse 7 1000 \<lparr>index = Map.empty, files = Map.empty, trace = []\<rparr> =
     (Inr NoResources, \<lparr>index = Map.empty, files = Map.empty, trace = [Acquire, Get 7, Print (LogNoResources 7), Sleep 1, Release]\<rparr>)"
  using fetch_not_resources_single_request [of 7 "\<lparr>index = Map.empty, files = Map.empty, trace = []\<rparr>" ex_net default_config 1000 1 "''<Error/>''"
      ex_parse "Element ''Error'' [] None"]
  by (simp add: fetch_eval)

text \<open>
  C5. A connection that always fails is tried exactly \<open>retries + 1\<close> times; the
  waits between attempts are \<open>2 ^ (MAX_RETRIES - retries)\<close>, doubling from attempt
  to attempt (1, 2, 4, ... from a first call), and the call gives up without
  touching the index or the directory.
\<close>

theorem fetch_connector_attempts:
  assumes net: "\<forall>n. net uid n = ConnectorFailure"
    and fresh: "py_str_int uid \<notin> dom (index w)"
    and bound: "r \<le> max_retries c"
  shows "\<exists>t. fetch_user_data c net parse uid r w = (Inr GaveUp, w\<lparr>trace := trace w @ t\<rparr>)
             \<and> requests t = Suc r \<and> sleeps t = map (\<lambda>i. 2 ^ i) [max_retries c - r..<max_retries c]"
  using fresh bound
proof (induction r arbitrary: w)
  case 0
  have "attempt c net parse uid 0 (emit Acquire w) =
        Done (Inr GaveUp) (emit (Print (LogFailed uid)) (emit (Print (LogConnectorError uid))
          (emit (Get uid) (emit Acquire w))))"
    using net by (simp add: attempt_def timed_get_def)
  with "0.prems" have "fetch_user_data c net parse uid 0 w = (Inr GaveUp, w\<lparr>trace := trace w @
      [Acquire, Get uid, Print (LogConnectorError uid), Print (LogFailed uid), Release]\<rparr>)"
    by (simp add: fetch_user_data_Done emit_def)
  then show ?case
    by (intro exI [where x = "[Acquire, Get uid, Print (LogConnectorError uid), Print (LogFailed uid), Release]"])
       (simp add: trace_observers)
next
  case (Suc r)
  let ?p = "[Get uid, Print (LogConnectorError uid)]"
  let ?s = "Sleep (2 ^ (max_retries c - Suc r))"
  have a: "attempt c net parse uid (Suc r) (emit Acquire w) = Retry (w\<lparr>trace := trace w @ Acquire # ?p\<rparr>)"
    using net by (simp add: attempt_def timed_get_def emit_def)
  from Suc.prems have "py_str_int uid \<notin> dom (index (w\<lparr>trace := trace w @ Acquire # ?p @ [?s]\<rparr>))"
    and "r \<le> max_retries c" by simp_all
  then obtain t where t: "fetch_user_data c net parse uid r (w\<lparr>trace := trace w @ Acquire # ?p @ [?s]\<rparr>) =
       (Inr GaveUp, w\<lparr>trace := trace w @ Acquire # ?p @ [?s] @ t\<rparr>)"
    and rq: "requests t = Suc r" and sl: "sleeps t = map (\<lambda>i. 2 ^ i) [max_retries c - r..<max_retries c]"
    using Suc.IH by fastforce
  have "fetch_user_data c net parse uid (Suc r) w =
        (Inr GaveUp, w\<lparr>trace := trace w @ Acquire # ?p @ ?s # t @ [Release]\<rparr>)"
    using fetch_retry_trace [OF Suc.prems(1) a] t by simp
  moreover have "sleeps (Acquire # ?p @ ?s # t @ [Release]) =
                 map (\<lambda>i. 2 ^ i) [max_retries c - Suc r..<max_retries c]"
    using sl Suc.prems(2) by (simp add: trace_observers backoff_sleeps_Cons)
  ultimately show ?case using rq
    by (intro exI [where x = "Acquire # ?p @ ?s # t @ [Release]"]) (simp add: requests_def)
qed

theorem fetch_connector_attempts_witness:
  "(\<forall>n. (\<lambda>_ _. ConnectorFailure) (5::int) n = ConnectorFailure) \<and>
   py_str_int 5 \<notin> dom (index \<lparr>index = Map.empty, files = Map.empty, trace = []\<rparr>) \<and> 2 \<le> max_retries small_config \<and>
   (\<exists>t. fetch_user_data small_config (\<lambda>_ _. ConnectorFailure) ex_parse 5 2 \<lparr>index = Map.empty, files = Map.empty, trace = []\<rparr> =
          (Inr GaveUp, \<lparr>index = Map.empty, files = Map.empty, trace = t\<rparr>) \<and>
        requests t = 3 \<and> sleeps t = [1, 2])"
  using fetch_connector_attempts [of "\<lambda>_ _. ConnectorFailure" 5 "\<lparr>index = Map.empty, files = Map.empty, trace = []\<rparr>" 2 small_config ex_parse]
  by (simp add: fetch_eval upt_rec)

text \<open>
  C6. A server error (502, 503 or 504) that persists is retried \<open>retries\<close> times
  with the doubling backoff, and the last one is reported as \<open>BadStatus\<close> after the
  one-second throttle, not as a failure after the retries. The number printed as
  "retries left" counts up (1, 2, ...) while the retries left count down.
\<close>

theorem fetch_server_error_backoff:
  assumes net: "\<forall>n. net uid n = Reply lat s body"
    and st: "s \<in> {502, 503, 504}"
    and lat: "lat \<le> request_timeout c" "lat \<le> global_timeout c"
    and fresh: "py_str_int uid \<notin> dom (index w)"
    and bound: "r \<le> max_retries c"
  shows "\<exists>t. fetch_user_data c net parse uid r w = (Inr (BadStatus s), w\<lparr>trace := trace w @ t\<rparr>)
             \<and> requests t = Suc r
             \<and> sleeps t = map (\<lambda>i. 2 ^ i) [max_retries c - r..<max_retries c] @ [1]
             \<and> retry_notes t = [max_retries c - r + 1..<max_retries c + 1]"
  using fresh bound
proof (induction r arbitrary: w)
  case 0
  have "attempt c net parse uid 0 (emit Acquire w) =
        Done (Inr (BadStatus s)) (emit (Sleep 1) (emit (Print (LogStatus s uid))
          (emit (Get uid) (emit Acquire w))))"
    using net st lat by (auto simp: attempt_def timed_get_def)
  with "0.prems" have "fetch_user_data c net parse uid 0 w = (Inr (BadStatus s), w\<lparr>trace := trace w @
      [Acquire, Get uid, Print (LogStatus s uid), Sleep 1, Release]\<rparr>)"
    by (simp add: fetch_user_data_Done emit_def)
  then show ?case
    by (intro exI [where x = "[Acquire, Get uid, Print (LogStatus s uid), Sleep 1, Release]"])
       (simp add: trace_observers)
next
  case (Suc r)
  let ?p = "[Get uid, Print (LogStatus s uid), Print (LogRetry uid (max_retries c - Suc r + 1))]"
  let ?s = "Sleep (2 ^ (max_retries c - Suc r))"
  have a: "attempt c net parse uid (Suc r) (emit Acquire w) = Retry (w\<lparr>trace := trace w @ Acquire # ?p\<rparr>)"
    using net st lat by (auto simp: attempt_def timed_get_def emit_def)
  from Suc.prems have "py_str_int uid \<notin> dom (index (w\<lparr>trace := trace w @ Acquire # ?p @ [?s]\<rparr>))"
    and "r \<le> max_retries c" by simp_all
  then obtain t where t: "fetch_user_data c net parse uid r (w\<lparr>trace := trace w @ Acquire # ?p @ [?s]\<rparr>) =
       (Inr (BadStatus s), w\<lparr>trace := trace w @ Acquire # ?p @ [?s] @ t\<rparr>)"
    and rq: "requests t = Suc r"
    and sl: "sleeps t = map (\<lambda>i. 2 ^ i) [max_retries c - r..<max_retries c] @ [1]"
    and nt: "retry_notes t = [max_retries c - r + 1..<max_retries c + 1]"
    using Suc.IH by fastforce
  have "fetch_user_data c net parse uid (Suc r) w =
        (Inr (BadStatus s), w\<lparr>trace := trace w @ Acquire # ?p @ ?s # t @ [Release]\<rparr>)"
    using fetch_retry_trace [OF Suc.prems(1) a] t by simp
  moreover have "sleeps (Acquire # ?p @ ?s # t @ [Release]) =
                 map (\<lambda>i. 2 ^ i) [max_retries c - Suc r..<max_retries c] @ [1]"
    using sl Suc.prems(2) by (simp add: trace_observers backoff_sleeps_Cons [symmetric])
  moreover have "retry_notes (Acquire # ?p @ ?s # t @ [Release]) =
                 [max_retries c - Suc r + 1..<max_retries c + 1]"
  proof -
    have "[max_retries c - Suc r + 1..<max_retries c + 1] =
          (max_retries c - Suc r + 1) # [max_retries c - r + 1..<max_retries c + 1]"
      using Suc.prems(2) by (simp add: upt_conv_Cons Suc_diff_Suc del: upt_Suc)
    with nt show ?thesis by (simp add: trace_observers)
  qed
  ultimately show ?case using rq
    by (intro exI [where x = "Acquire # ?p @ ?s # t @ [Release]"]) (simp add: requests_def)
qed
theorem fetch_server_error_backoff_witness:
  "(\<forall>n. (\<lambda>_ _. Reply 1 503 (BodyText [])) (5::int) n = Reply 1 503 (BodyText [])) \<and>
   (503::nat) \<in> {502, 503, 504} \<and> 1 \<le> request_timeout small_config \<and> 1 \<le> global_timeout small_config \<and>
   py_str_int 5 \<notin> dom (index \<lparr>index = Map.empty, files = Map.empty, trace = []\<rparr>) \<and> 2 \<le> max_retries small_config \<and>
   (\<exists>t. fetch_user_data small_config (\<lambda>_ _. Reply 1 503 (BodyText [])) ex_parse 5 2 \<lparr>index = Map.empty, files = Map.empty, trace = []\<rparr> =
          (Inr (BadStatus 503), \<lparr>index = Map.empty, files = Map.empty, trace = t\<rparr>) \<and>
        requests t = 3 \<and> sleeps t = [1, 2, 1] \<and> retry_notes t = [1, 2])"
  using fetch_server_error_backoff [of "\<lambda>_ _. Reply 1 503 (BodyText [])" 5 1 503 "BodyText []" small_config
      "\<lparr>index = Map.empty, files = Map.empty, trace = []\<rparr>" 2 ex_parse]
  by (simp add: fetch_eval upt_rec)

text \<open>
  C7. A 200 response whose body is not well-formed XML is not classified at all:
  \<open>ET.fromstring\<close> raises \<open>ParseError\<close>, which no \<open>except\<close> clause catches, so the
  exception leaves the worker (after one request, with the permit released).
\<close>

theorem fetch_malformed_xml_raises:
  assumes "py_str_int uid \<notin> dom (index w)"
    and "net uid (max_retries c - r) = Reply lat 200 (BodyText content)"
    and "lat \<le> request_timeout c" and "lat \<le> global_timeout c"
    and "parse content = None"
  shows "fetch_user_data c net parse uid r w =
           (Inl ParseError, w\<lparr>trace := trace w @ [Acquire, Get uid, Release]\<rparr>)"
proof -
  have "attempt c net parse uid r (emit Acquire w) = Done (Inl ParseError) (emit (Get uid) (emit Acquire w))"
    using assms(2-5) by (simp add: attempt_def save_response_def timed_get_Reply_in_time)
  with assms(1) show ?thesis by (simp add: fetch_user_data_Done emit_def)
qed

theorem fetch_malformed_xml_raises_witness:
  "py_str_int 8 \<notin> dom (index \<lparr>index = Map.empty, files = Map.empty, trace = []\<rparr>) \<and>
   fetch_user_data default_config ex_net ex_parse 8 1000 \<lparr>index = Map.empty, files = Map.empty, trace = []\<rparr> =
     (Inl ParseError, \<lparr>index = Map.empty, files = Map.empty, trace = [Acquire, Get 8, Release]\<rparr>)"
  using fetch_malformed_xml_raises [of 8 "\<lparr>index = Map.empty, files = Map.empty, trace = []\<rparr>" ex_net default_config 1000 1 "''<bad''" ex_parse]
  by (simp add: fetch_eval)

text \<open>
  C8. The index and the directory agree before a call (every entry names an existing
  file carrying the entry's key) and they agree after it, whatever the call returns.
\<close>

theorem fetch_preserves_index_agreement:
  assumes agree: "index_agrees (files w) (index w)"
    and run: "fetch_user_data c net parse uid r w = (res, w')"
  shows "index_agrees (files w') (index w')"
  using fetch_user_data_effect [OF run]
proof
  assume "index w' = index w \<and> files w' = files w \<and> (\<forall>f. res \<noteq> Inr (Saved f))"
  with agree show ?thesis by simp
next
  assume "saves uid w res w'"
  with agree show ?thesis by (rule saves_index_agrees)
qed

theorem fetch_preserves_index_agreement_witness:
  "index_agrees (files \<lparr>index = Map.empty, files = Map.empty, trace = []\<rparr>) (index \<lparr>index = Map.empty, files = Map.empty, trace = []\<rparr>) \<and>
   fetch_user_data default_config ex_net ex_parse 5 1000 \<lparr>index = Map.empty, files = Map.empty, trace = []\<rparr> =
     (fst (fetch_user_data default_config ex_net ex_parse 5 1000 \<lparr>index = Map.empty, files = Map.empty, trace = []\<rparr>),
      snd (fetch_user_data default_config ex_net ex_parse 5 1000 \<lparr>index = Map.empty, files = Map.empty, trace = []\<rparr>)) \<and>
   index_agrees (files (snd (fetch_user_data default_config ex_net ex_parse 5 1000 \<lparr>index = Map.empty, files = Map.empty, trace = []\<rparr>)))
     (index (snd (fetch_user_data default_config ex_net ex_parse 5 1000 \<lparr>index = Map.empty, files = Map.empty, trace = []\<rparr>)))"
proof -
  have a: "index_agrees (files \<lparr>index = Map.empty, files = Map.empty, trace = []\<rparr>) (index \<lparr>index = Map.empty, files = Map.empty, trace = []\<rparr>)"
    by (simp add: index_agrees_def)
  show ?thesis
    using fetch_preserves_index_agreement [OF a prod.collapse [symmetric]] a by simp
qed


text \<open>
  C29. The outer \<open>wait_for(..., GLOBAL_TIMEOUT)\<close> never decides anything while
  \<open>TIMEOUT \<le> GLOBAL_TIMEOUT\<close> (10 and 30 as shipped): a worker behaves the same
  for every global bound at least \<open>TIMEOUT\<close>, so only \<open>TIMEOUT\<close> matters.
\<close>

theorem fetch_global_timeout_irrelevant:
  assumes "request_timeout c \<le> global_timeout c" and "request_timeout c \<le> g"
  shows "fetch_user_data (c\<lparr>global_timeout := g\<rparr>) net parse uid r w = fetch_user_data c net parse uid r w"
proof (induction r arbitrary: w rule: less_induct)
  case (less r)
  have a: "attempt (c\<lparr>global_timeout := g\<rparr>) net parse uid r w0 = attempt c net parse uid r w0" for w0
  proof -
    have "timed_get (c\<lparr>global_timeout := g\<rparr>) x = timed_get c x" for x
      using timed_get_inner_bound [OF assms(1), of x] timed_get_inner_bound [of "c\<lparr>global_timeout := g\<rparr>" x] assms(2)
      by (cases x) simp_all
    then show ?thesis by (simp add: attempt_def)
  qed
  show ?case
  proof (cases "py_str_int uid \<in> dom (index w)")
    case True
    then show ?thesis by (simp add: fetch_user_data_skip)
  next
    case False
    show ?thesis
    proof (cases "attempt c net parse uid r (emit Acquire w)")
      case (Done res w')
      with False a show ?thesis by (simp add: fetch_user_data_Done)
    next
      case (Retry w')
      then have "r - 1 < r" using attempt_Retry_pos by fastforce
      with False Retry a less.IH show ?thesis by (simp add: fetch_user_data_Retry)
    qed
  qed
qed

theorem fetch_global_timeout_irrelevant_witness:
  "request_timeout default_config \<le> global_timeout default_config \<and> request_timeout default_config \<le> 10 \<and>
   fetch_user_data (default_config\<lparr>global_timeout := 10\<rparr>) (\<lambda>_ _. Reply 20 200 (BodyText [])) ex_parse 5 0
     \<lparr>index = Map.empty, files = Map.empty, trace = []\<rparr> =
   fetch_user_data default_config (\<lambda>_ _. Reply 20 200 (BodyText [])) ex_parse 5 0
     \<lparr>index = Map.empty, files = Map.empty, trace = []\<rparr> \<and>
   fst (fetch_user_data default_config (\<lambda>_ _. Reply 20 200 (BodyText [])) ex_parse 5 0
     \<lparr>index = Map.empty, files = Map.empty, trace = []\<rparr>) = Inr GaveUp"
proof -
  have h: "request_timeout default_config \<le> global_timeout default_config" "request_timeout default_config \<le> 10"
    by (simp_all add: default_config_def)
  have f: "fst (fetch_user_data default_config (\<lambda>_ _. Reply 20 200 (BodyText [])) ex_parse 5 0
     \<lparr>index = Map.empty, files = Map.empty, trace = []\<rparr>) = Inr GaveUp"
    by (simp add: fetch_eval)
  show ?thesis using fetch_global_timeout_irrelevant [OF h] h f by simp
qed

text \<open>
  C30. An aiohttp client error other than \<open>ClientConnectorError\<close> and
  \<open>ClientResponseError\<close> (a dropped connection, for instance) is caught by no
  \<open>except\<close> clause: it leaves the worker after one request, not retried.
\<close>

theorem fetch_other_client_error_raises:
  assumes "py_str_int uid \<notin> dom (index w)" and "net uid (max_retries c - r) = OtherClientFailure"
  shows "fetch_user_data c net parse uid r w = (Inl ClientError, w\<lparr>trace := trace w @ [Acquire, Get uid, Release]\<rparr>)"
proof -
  have "attempt c net parse uid r (emit Acquire w) = Done (Inl ClientError) (emit (Get uid) (emit Acquire w))"
    using assms(2) by (simp add: attempt_def timed_get_def)
  with assms(1) show ?thesis by (simp add: fetch_user_data_Done emit_def)
qed

theorem fetch_other_client_error_raises_witness:
  "py_str_int 5 \<notin> dom (index \<lparr>index = Map.empty, files = Map.empty, trace = []\<rparr>) \<and>
   (\<lambda>_ _. OtherClientFailure) (5::int) (max_retries default_config - 1000) = OtherClientFailure \<and>
   fetch_user_data default_config (\<lambda>_ _. OtherClientFailure) ex_parse 5 1000 \<lparr>index = Map.empty, files = Map.empty, trace = []\<rparr> =
     (Inl ClientError, \<lparr>index = Map.empty, files = Map.empty, trace = [Acquire, Get 5, Release]\<rparr>)"
  using fetch_other_client_error_raises [of 5 "\<lparr>index = Map.empty, files = Map.empty, trace = []\<rparr>" "\<lambda>_ _. OtherClientFailure" default_config 1000 ex_parse]
  by (simp add: fetch_eval)

end
