(* ===== verification/Gate.thy ===== *)
theory Gate
  imports FetchWorker
begin

text \<open>
  The concurrency gate: \<open>semaphore = asyncio.Semaphore(MAX_CONCURRENT_REQUESTS)\<close>
  (lines 19--20 and 124 of \<open>src/grab_mayhemids.py\<close>) and the \<open>async with
  semaphore\<close> of line 47, which every call of \<open>fetch_user_data\<close> enters, retries
  included: the retry is a recursive call made inside the block, so a worker holds one
  permit per attempt in progress. Two views:
  \<^item> one worker against the counter (\<open>gate_replay\<close>), with \<open>peak_from\<close> and
    \<open>floor_from\<close> measuring the most and the fewest permits held along a trace;
  \<^item> the workers of a batch interleaved by the event loop (\<open>gate_step\<close>, an
    inductive step relation on the counter, the workers' remaining effects and the
    permits each holds; \<open>gate_reach\<close>, the states reachable from the start;
    \<open>requesting\<close>, the tasks whose next effect is a request, and \<open>guarded\<close>, that
    every request of a trace is made with a permit held).
  A worker's effects do not depend on the interleaving (each worker reads and writes
  only its own key of the index), so each worker is represented by the trace its call
  produces.
\<close>

section \<open>One worker against the counter\<close>

fun gate_replay :: "nat \<Rightarrow> effect list \<Rightarrow> nat option" where
  "gate_replay v [] = Some v"
| "gate_replay v (Acquire # tr) = (if 0 < v then gate_replay (v - 1) tr else None)"
| "gate_replay v (Release # tr) = gate_replay (Suc v) tr"
| "gate_replay v (e # tr) = gate_replay v tr"

fun peak_from :: "int \<Rightarrow> effect list \<Rightarrow> int" where
  "peak_from h [] = h"
| "peak_from h (Acquire # tr) = max h (peak_from (h + 1) tr)"
| "peak_from h (Release # tr) = max h (peak_from (h - 1) tr)"
| "peak_from h (e # tr) = max h (peak_from h tr)"

definition held :: "effect list \<Rightarrow> int" where
  "held tr = int (count_list tr Acquire) - int (count_list tr Release)"

definition plain :: "effect list \<Rightarrow> bool" where
  "plain tr \<longleftrightarrow> Acquire \<notin> set tr \<and> Release \<notin> set tr"

lemma held_simps [simp]:
  "held [] = 0" "held (Acquire # tr) = held tr + 1" "held (Release # tr) = held tr - 1"
  "e \<noteq> Acquire \<Longrightarrow> e \<noteq> Release \<Longrightarrow> held (e # tr) = held tr"
  "held (xs @ ys) = held xs + held ys"
  by (simp_all add: held_def)

lemma peak_from_ge: "h \<le> peak_from h tr"
  by (induction h tr rule: peak_from.induct) auto

lemma peak_from_shift: "peak_from (h + k) tr = peak_from h tr + k"
  by (induction h tr arbitrary: k rule: peak_from.induct) (auto simp: algebra_simps)

lemma peak_from_held: "h + held tr \<le> peak_from h tr"
proof (induction h tr rule: peak_from.induct)
  case (2 h tr) then show ?case by simp
next
  case (3 h tr) then show ?case by simp
qed (simp_all add: held_def)

lemma peak_from_append:
  "peak_from h (xs @ ys) = max (peak_from h xs) (peak_from (h + held xs) ys)"
proof (induction h xs rule: peak_from.induct)
  case (1 h)
  then show ?case using peak_from_ge [of h ys] by simp
next
  case (2 h tr) then show ?case by (simp add: max.assoc algebra_simps)
next
  case (3 h tr) then show ?case by (simp add: max.assoc algebra_simps)
qed (simp_all add: max.assoc held_def)

lemma plain_peak: "plain p \<Longrightarrow> peak_from h p = h"
  by (induction h p rule: peak_from.induct) (auto simp: plain_def)

lemma plain_held: "plain p \<Longrightarrow> held p = 0"
  by (simp add: plain_def held_def count_list_0_iff)

lemma gate_replay_peak:
  "gate_replay v tr = (if peak_from 0 tr \<le> int v then Some (nat (int v - held tr)) else None)"
proof (induction v tr rule: gate_replay.induct)
  case (2 v tr)
  have "peak_from 0 (Acquire # tr) = peak_from 0 tr + 1"
    using peak_from_shift [of 0 1 tr] peak_from_ge [of 0 tr] by simp
  with 2 show ?case using peak_from_ge [of 0 tr] by (auto simp: of_nat_diff)
next
  case (3 v tr)
  have "peak_from 0 (Release # tr) = max 0 (peak_from 0 tr - 1)"
    using peak_from_shift [of 0 "-1" tr] by simp
  with 3 show ?case using peak_from_held [of 0 tr] by auto
qed (auto simp: held_def)

lemma requests_simps [simp]:
  "requests [] = 0" "requests (Get u # tr) = Suc (requests tr)"
  "\<not> is_request e \<Longrightarrow> requests (e # tr) = requests tr"
  "requests (xs @ ys) = requests xs + requests ys"
  by (simp_all add: requests_def)

lemma attempt_trace:
  "attempt c net parse uid r w = Done res w' \<or> attempt c net parse uid r w = Retry w' \<Longrightarrow>
   \<exists>p. trace w' = trace w @ p \<and> plain p \<and> filter is_request p = [Get uid]"
  by (auto simp: attempt_def save_response_def Let_def emit_def plain_def
      split: get_result.splits body_read.splits if_splits option.splits)

text \<open>
  The shape of every trace a call leaves: the skip line alone, or one attempt between
  its acquire and its release, with a retry nested inside it after the backoff sleep.
  Properties of call traces follow from this grammar without a new induction.
\<close>

lemma fetch_trace_shape:
  assumes run: "fetch_user_data c net parse uid r w = (res, w')"
    and skip: "P [Print (LogSkip uid)]"
    and once: "\<And>p. plain p \<Longrightarrow> filter is_request p = [Get uid] \<Longrightarrow> P (Acquire # p @ [Release])"
    and nested: "\<And>p d t. plain p \<Longrightarrow> filter is_request p = [Get uid] \<Longrightarrow> P t \<Longrightarrow>
                   P (Acquire # p @ Sleep d # t @ [Release])"
  shows "\<exists>t. trace w' = trace w @ t \<and> P t"
  using run skip once nested
proof (induction c net parse uid r w arbitrary: res w' rule: fetch_user_data.induct)
  case (1 c net parse uid r w)
  note skip = "1.prems"(2) and once = "1.prems"(3) and nested = "1.prems"(4)
  show ?case
  proof (cases "py_str_int uid \<in> dom (index w)")
    case True
    with "1.prems"(1) have "w' = emit (Print (LogSkip uid)) w" by (simp add: fetch_user_data_skip)
    with skip show ?thesis by (intro exI [where x = "[Print (LogSkip uid)]"]) simp
  next
    case False
    show ?thesis
    proof (cases "attempt c net parse uid r (emit Acquire w)")
      case (Done res0 w0)
      with False "1.prems"(1) have w': "w' = emit Release w0"
        by (simp add: fetch_user_data_Done)
      obtain p where p: "trace w0 = trace w @ Acquire # p" "plain p" "filter is_request p = [Get uid]"
        using attempt_trace [of c net parse uid r "emit Acquire w" res0 w0] Done by auto
      with w' once [OF p(2,3)] show ?thesis
        by (intro exI [where x = "Acquire # p @ [Release]"]) simp
    next
      case (Retry w0)
      obtain res1 w1 where rec: "fetch_user_data c net parse uid (r - 1)
          (emit (Sleep (2 ^ (max_retries c - r))) w0) = (res1, w1)"
        by fastforce
      with False Retry "1.prems"(1) have w': "w' = emit Release w1"
        by (simp add: fetch_user_data_Retry)
      obtain p where p: "trace w0 = trace w @ Acquire # p" "plain p" "filter is_request p = [Get uid]"
        using attempt_trace [of c net parse uid r "emit Acquire w" _ w0] Retry by auto
      have ih: "\<exists>t. trace w1 = trace (emit (Sleep (2 ^ (max_retries c - r))) w0) @ t \<and> P t"
        by (rule "1.IH" [OF False Retry rec skip once nested])
      then obtain t where t: "trace w1 = trace w0 @ [Sleep (2 ^ (max_retries c - r))] @ t" "P t"
        by (auto simp only: trace_emit append_assoc)
      with w' p nested [OF p(2,3) t(2), of "2 ^ (max_retries c - r)"] show ?thesis
        by (intro exI [where x = "Acquire # p @ Sleep (2 ^ (max_retries c - r)) # t @ [Release]"]) simp
    qed
  qed
qed

lemma plain_requests: "plain p \<Longrightarrow> filter is_request p = [Get uid] \<Longrightarrow> requests p = 1"
  by (simp add: requests_def)

lemma fetch_trace_nesting:
  "fetch_user_data c net parse uid r w = (res, w') \<Longrightarrow>
   \<exists>t. trace w' = trace w @ t \<and> held t = 0 \<and> peak_from 0 t = int (requests t)"
proof (erule fetch_trace_shape)
  fix p assume "plain p" "filter is_request p = [Get uid]"
  then show "held (Acquire # p @ [Release]) = 0 \<and>
             peak_from 0 (Acquire # p @ [Release]) = int (requests (Acquire # p @ [Release]))"
    by (simp add: peak_from_append plain_peak plain_held plain_requests)
next
  fix p d t
  assume p: "plain p" "filter is_request p = [Get uid]" and t: "held t = 0 \<and> peak_from 0 t = int (requests t)"
  have "peak_from 1 t = peak_from 0 t + 1" using peak_from_shift [of 0 1 t] by simp
  with p t peak_from_ge [of 0 t]
  show "held (Acquire # p @ Sleep d # t @ [Release]) = 0 \<and>
        peak_from 0 (Acquire # p @ Sleep d # t @ [Release]) = int (requests (Acquire # p @ Sleep d # t @ [Release]))"
    by (simp add: peak_from_append plain_peak plain_held plain_requests)
qed (simp add: held_def)

section \<open>Workers interleaved\<close>

fun floor_from :: "int \<Rightarrow> effect list \<Rightarrow> int" where
  "floor_from h [] = h"
| "floor_from h (Acquire # tr) = min h (floor_from (h + 1) tr)"
| "floor_from h (Release # tr) = min h (floor_from (h - 1) tr)"
| "floor_from h (e # tr) = min h (floor_from h tr)"

lemma floor_from_le: "floor_from h tr \<le> h"
  by (induction h tr rule: floor_from.induct) auto

record gate =
  free :: nat
  tasks :: "effect list list"
  holding :: "int list"

definition gate_init :: "nat \<Rightarrow> effect list list \<Rightarrow> gate" where
  "gate_init n ts = \<lparr>free = n, tasks = ts, holding = replicate (length ts) 0\<rparr>"

inductive gate_step :: "gate \<Rightarrow> gate \<Rightarrow> bool" where
  acquire: "i < length (tasks g) \<Longrightarrow> tasks g ! i = Acquire # rest \<Longrightarrow> 0 < free g \<Longrightarrow>
    gate_step g (g\<lparr>free := free g - 1, tasks := (tasks g)[i := rest],
                   holding := (holding g)[i := holding g ! i + 1]\<rparr>)"
| release: "i < length (tasks g) \<Longrightarrow> tasks g ! i = Release # rest \<Longrightarrow>
    gate_step g (g\<lparr>free := Suc (free g), tasks := (tasks g)[i := rest],
                   holding := (holding g)[i := holding g ! i - 1]\<rparr>)"
| other: "i < length (tasks g) \<Longrightarrow> tasks g ! i = e # rest \<Longrightarrow> e \<noteq> Acquire \<Longrightarrow> e \<noteq> Release \<Longrightarrow>
    gate_step g (g\<lparr>tasks := (tasks g)[i := rest]\<rparr>)"

inductive gate_reach :: "nat \<Rightarrow> effect list list \<Rightarrow> gate \<Rightarrow> bool" for n ts where
  init: "gate_reach n ts (gate_init n ts)"
| step: "gate_reach n ts g \<Longrightarrow> gate_step g g' \<Longrightarrow> gate_reach n ts g'"

definition gate_inv :: "nat \<Rightarrow> gate \<Rightarrow> bool" where
  "gate_inv n g \<longleftrightarrow> length (holding g) = length (tasks g)
     \<and> int (free g) + sum_list (holding g) = int n"

definition well_nested :: "gate \<Rightarrow> bool" where
  "well_nested g \<longleftrightarrow> (\<forall>i < length (tasks g). 0 \<le> floor_from (holding g ! i) (tasks g ! i))"

definition inside :: "gate \<Rightarrow> nat list" where
  "inside g = filter (\<lambda>i. 0 < holding g ! i) [0..<length (tasks g)]"

lemma sum_list_update_int:
  "i < length xs \<Longrightarrow> sum_list (xs[i := v]) = sum_list xs - xs ! i + (v :: int)"
  by (induction xs arbitrary: i) (auto split: nat.split)

lemma gate_step_inv: "gate_step g g' \<Longrightarrow> gate_inv n g \<Longrightarrow> gate_inv n g'"
  by (induction rule: gate_step.induct) (auto simp: gate_inv_def sum_list_update_int)

lemma gate_reach_inv: "gate_reach n ts g \<Longrightarrow> gate_inv n g"
proof (induction rule: gate_reach.induct)
  case init
  show ?case by (simp add: gate_inv_def gate_init_def sum_list_replicate)
next
  case (step g g')
  then show ?case by (blast intro: gate_step_inv)
qed


lemma gate_step_well_nested:
  assumes "gate_step g g'" "well_nested g" "gate_inv n g"
  shows "well_nested g'"
  using assms
proof (induction rule: gate_step.induct)
  case (acquire i g rest)
  then show ?case
    by (auto simp: well_nested_def gate_inv_def nth_list_update
        dest!: spec [where x = i] intro: order_trans [OF _ floor_from_le])
next
  case (release i g rest)
  then show ?case
    by (auto simp: well_nested_def gate_inv_def nth_list_update
        dest!: spec [where x = i])
next
  case (other i g e rest)
  then show ?case
    by (cases e) (auto simp: well_nested_def gate_inv_def nth_list_update dest!: spec [where x = i])
qed

lemma well_nested_holding_nonneg:
  "well_nested g \<Longrightarrow> i < length (tasks g) \<Longrightarrow> 0 \<le> holding g ! i"
  by (auto simp: well_nested_def intro: order_trans [OF _ floor_from_le])

lemma inside_bound:
  assumes inv: "gate_inv n g" and wn: "well_nested g"
  shows "length (inside g) \<le> n"
proof -
  let ?m = "length (tasks g)"
  let ?I = "{i. i < ?m \<and> 0 < holding g ! i}"
  have len: "length (inside g) = card ?I"
    by (simp add: inside_def length_filter_conv_card cong: conj_cong)
  have nonneg: "\<And>i. i < ?m \<Longrightarrow> 0 \<le> holding g ! i"
    using wn by (rule well_nested_holding_nonneg)
  have "int (card ?I) = (\<Sum>i\<in>?I. 1)" by simp
  also have "\<dots> \<le> (\<Sum>i\<in>?I. holding g ! i)"
    by (rule sum_mono) auto
  also have "\<dots> \<le> (\<Sum>i\<in>{0..<?m}. holding g ! i)"
    by (rule sum_mono2) (auto simp: nonneg)
  also have "\<dots> = sum_list (holding g)"
    using inv by (simp add: gate_inv_def sum_list_sum_nth)
  also have "\<dots> \<le> int n"
    using inv by (simp add: gate_inv_def)
  finally show ?thesis using len by simp
qed

lemma floor_from_shift: "floor_from (h + k) tr = floor_from h tr + k"
  by (induction h tr arbitrary: k rule: floor_from.induct) (auto simp: algebra_simps)

lemma floor_from_append:
  "floor_from h (xs @ ys) = min (floor_from h xs) (floor_from (h + held xs) ys)"
proof (induction h xs rule: floor_from.induct)
  case (1 h)
  then show ?case using floor_from_le [of h ys] by simp
next
  case (2 h tr) then show ?case by (simp add: min.assoc algebra_simps)
next
  case (3 h tr) then show ?case by (simp add: min.assoc algebra_simps)
qed (simp_all add: min.assoc held_def)

lemma plain_floor: "plain p \<Longrightarrow> floor_from h p = h"
  by (induction h p rule: floor_from.induct) (auto simp: plain_def)

lemma fetch_trace_floor:
  "fetch_user_data c net parse uid r w = (res, w') \<Longrightarrow>
   \<exists>t. trace w' = trace w @ t \<and> held t = 0 \<and> floor_from 0 t = 0"
proof (erule fetch_trace_shape)
  fix p assume "plain p"
  then show "held (Acquire # p @ [Release]) = 0 \<and> floor_from 0 (Acquire # p @ [Release]) = 0"
    by (simp add: floor_from_append plain_floor plain_held)
next
  fix p d t
  assume p: "plain p" and t: "held t = 0 \<and> floor_from 0 t = 0"
  have "floor_from 1 t = 1" using floor_from_shift [of 0 1 t] t by simp
  with p t show "held (Acquire # p @ Sleep d # t @ [Release]) = 0 \<and>
        floor_from 0 (Acquire # p @ Sleep d # t @ [Release]) = 0"
    by (simp add: floor_from_append plain_floor plain_held)
qed (simp add: held_def)

lemma fetch_trace_requests:
  "fetch_user_data c net parse uid r w = (res, w') \<Longrightarrow>
   \<exists>t. trace w' = trace w @ t \<and> set (filter is_request t) \<subseteq> {Get uid}"
  by (erule fetch_trace_shape) auto

definition worker_trace :: "effect list \<Rightarrow> bool" where
  "worker_trace t \<longleftrightarrow> (\<exists>c net parse uid r w res w'.
     fetch_user_data c net parse uid r w = (res, w') \<and> trace w' = trace w @ t)"

lemma worker_trace_floor: "worker_trace t \<Longrightarrow> 0 \<le> floor_from 0 t"
  by (auto simp: worker_trace_def dest!: fetch_trace_floor)

lemma gate_reach_well_nested:
  assumes "gate_reach n ts g" "list_all worker_trace ts"
  shows "well_nested g"
  using assms(1)
proof (induction rule: gate_reach.induct)
  case init
  with assms(2) show ?case
    by (auto simp: well_nested_def gate_init_def list_all_length worker_trace_floor)
next
  case (step g g')
  then show ?case using gate_step_well_nested gate_reach_inv by blast
qed

lemma gate_reach_plain:
  assumes "gate_reach n ts g" "i < length (tasks g)" "tasks g ! i = p @ rest" "plain p"
  shows "gate_reach n ts (g\<lparr>tasks := (tasks g)[i := rest]\<rparr>)"
  using assms
proof (induction p arbitrary: g)
  case Nil
  then have "(tasks g)[i := rest] = tasks g" by (metis append_Nil list_update_id)
  with Nil.prems(1) show ?case by simp
next
  case (Cons e p)
  let ?g1 = "g\<lparr>tasks := (tasks g)[i := p @ rest]\<rparr>"
  from Cons.prems have "gate_step g ?g1"
    by (intro gate_step.other [where e = e]) (auto simp: plain_def)
  with Cons.prems(1) have "gate_reach n ts ?g1" by (rule gate_reach.step)
  with Cons.prems(2,4) have "gate_reach n ts (?g1\<lparr>tasks := (tasks ?g1)[i := rest]\<rparr>)"
    by (intro Cons.IH) (auto simp: plain_def)
  then show ?case by simp
qed

inductive_cases gate_step_elim: "gate_step g g'"

lemma two_acquirers_deadlock:
  assumes "plain p1" "plain p2"
  shows "gate_reach 2 [Acquire # p1 @ Acquire # r1, Acquire # p2 @ Acquire # r2]
           \<lparr>free = 0, tasks = [Acquire # r1, Acquire # r2], holding = [1, 1]\<rparr>
         \<and> (\<forall>g'. \<not> gate_step \<lparr>free = 0, tasks = [Acquire # r1, Acquire # r2], holding = [1, 1]\<rparr> g')"
proof
  let ?ts = "[Acquire # p1 @ Acquire # r1, Acquire # p2 @ Acquire # r2]"
  have g0: "gate_reach 2 ?ts \<lparr>free = 2, tasks = ?ts, holding = [0, 0]\<rparr>"
    using gate_reach.init [of 2 ?ts] by (simp add: gate_init_def numeral_2_eq_2)
  have "gate_step \<lparr>free = 2, tasks = ?ts, holding = [0, 0]\<rparr>
         \<lparr>free = 1, tasks = [p1 @ Acquire # r1, Acquire # p2 @ Acquire # r2], holding = [1, 0]\<rparr>"
    using gate_step.acquire [of 0 "\<lparr>free = 2, tasks = ?ts, holding = [0, 0]\<rparr>" "p1 @ Acquire # r1"] by simp
  with g0 have g1: "gate_reach 2 ?ts \<lparr>free = 1, tasks = [p1 @ Acquire # r1, Acquire # p2 @ Acquire # r2], holding = [1, 0]\<rparr>"
    by (rule gate_reach.step)
  have "gate_step \<lparr>free = 1, tasks = [p1 @ Acquire # r1, Acquire # p2 @ Acquire # r2], holding = [1, 0]\<rparr>
         \<lparr>free = 0, tasks = [p1 @ Acquire # r1, p2 @ Acquire # r2], holding = [1, 1]\<rparr>"
    using gate_step.acquire [of 1 "\<lparr>free = 1, tasks = [p1 @ Acquire # r1, Acquire # p2 @ Acquire # r2], holding = [1, 0]\<rparr>"
        "p2 @ Acquire # r2"] by simp
  with g1 have g2: "gate_reach 2 ?ts \<lparr>free = 0, tasks = [p1 @ Acquire # r1, p2 @ Acquire # r2], holding = [1, 1]\<rparr>"
    by (rule gate_reach.step)
  have g3: "gate_reach 2 ?ts \<lparr>free = 0, tasks = [Acquire # r1, p2 @ Acquire # r2], holding = [1, 1]\<rparr>"
    using gate_reach_plain [OF g2, of 0 p1 "Acquire # r1"] assms(1) by simp
  show "gate_reach 2 ?ts \<lparr>free = 0, tasks = [Acquire # r1, Acquire # r2], holding = [1, 1]\<rparr>"
    using gate_reach_plain [OF g3, of 1 p2 "Acquire # r2"] assms(2) by simp
next
  show "\<forall>g'. \<not> gate_step \<lparr>free = 0, tasks = [Acquire # r1, Acquire # r2], holding = [1, 1]\<rparr> g'"
    by (auto elim!: gate_step_elim simp: nth_Cons split: nat.splits)
qed

lemma fetch_trace_extends:
  "fetch_user_data c net parse uid r w = (res, w') \<Longrightarrow> \<exists>t. trace w' = trace w @ t"
  by (blast dest: fetch_trace_nesting)

lemma fetch_first_retry_shape:
  assumes run: "fetch_user_data c net parse uid r w = (res, w')"
    and fresh: "py_str_int uid \<notin> dom (index w)"
    and retry: "attempt c net parse uid r (emit Acquire w) = Retry v"
  shows "\<exists>p rest. trace w' = trace w @ Acquire # p @ Acquire # rest \<and> plain p"
proof -
  let ?v = "emit (Sleep (2 ^ (max_retries c - r))) v"
  obtain res1 w1 where rec: "fetch_user_data c net parse uid (r - 1) ?v = (res1, w1)"
    by fastforce
  with run fresh retry have w': "w' = emit Release w1"
    by (simp add: fetch_user_data_Retry)
  obtain p where p: "trace v = trace w @ Acquire # p" "plain p"
    using attempt_trace [of c net parse uid r "emit Acquire w" _ v] retry by auto
  have "index v = index w" using attempt_Retry_frame [OF retry] by simp
  with fresh have fresh': "py_str_int uid \<notin> dom (index ?v)" by simp
  show ?thesis
  proof (cases "attempt c net parse uid (r - 1) (emit Acquire ?v)")
    case (Done res2 w2)
    obtain q where "trace w2 = trace ?v @ Acquire # q"
      using attempt_trace [of c net parse uid "r - 1" "emit Acquire ?v" res2 w2] Done by auto
    moreover have "w1 = emit Release w2" using rec fresh' Done by (simp add: fetch_user_data_Done)
    ultimately show ?thesis using w' p
      by (intro exI [where x = "p @ [Sleep (2 ^ (max_retries c - r))]"] exI [where x = "q @ [Release, Release]"])
         (simp add: plain_def)
  next
    case (Retry v2)
    obtain q where q: "trace v2 = trace ?v @ Acquire # q"
      using attempt_trace [of c net parse uid "r - 1" "emit Acquire ?v" _ v2] Retry by auto
    obtain res3 w3 where rec2: "fetch_user_data c net parse uid (r - 1 - 1)
        (emit (Sleep (2 ^ (max_retries c - (r - 1)))) v2) = (res3, w3)"
      by fastforce
    obtain u where "trace w3 = trace (emit (Sleep (2 ^ (max_retries c - (r - 1)))) v2) @ u"
      using fetch_trace_extends [OF rec2] by blast
    moreover have "w1 = emit Release w3"
      using rec fresh' Retry rec2 by (simp add: fetch_user_data_Retry)
    ultimately show ?thesis using w' p q
      by (intro exI [where x = "p @ [Sleep (2 ^ (max_retries c - r))]"]
          exI [where x = "q @ Sleep (2 ^ (max_retries c - (r - 1))) # u @ [Release, Release]"])
         (simp add: plain_def)
  qed
qed

section \<open>Properties of the gate\<close>

text \<open>
  C9. A call takes one permit per attempt and keeps each until the whole call returns:
  at its deepest point it holds as many permits as it made requests, and it gives all
  of them back. (The spec has each worker acquire once and release once.)
\<close>

theorem fetch_nests_permits:
  assumes "fetch_user_data c net parse uid r w = (res, w')"
  shows "peak_from 0 (drop (length (trace w)) (trace w')) = int (requests (drop (length (trace w)) (trace w')))
         \<and> held (drop (length (trace w)) (trace w')) = 0"
  using fetch_trace_nesting [OF assms] by auto

theorem fetch_nests_permits_witness:
  "fetch_user_data default_config ex_net ex_parse 5 1000 \<lparr>index = Map.empty, files = Map.empty, trace = []\<rparr> =
     (fst (fetch_user_data default_config ex_net ex_parse 5 1000 \<lparr>index = Map.empty, files = Map.empty, trace = []\<rparr>),
      snd (fetch_user_data default_config ex_net ex_parse 5 1000 \<lparr>index = Map.empty, files = Map.empty, trace = []\<rparr>)) \<and>
   peak_from 0 (drop 0 (trace (snd (fetch_user_data default_config ex_net ex_parse 5 1000 \<lparr>index = Map.empty, files = Map.empty, trace = []\<rparr>)))) = 2 \<and>
   requests (drop 0 (trace (snd (fetch_user_data default_config ex_net ex_parse 5 1000 \<lparr>index = Map.empty, files = Map.empty, trace = []\<rparr>)))) = 2 \<and>
   held (drop 0 (trace (snd (fetch_user_data default_config ex_net ex_parse 5 1000 \<lparr>index = Map.empty, files = Map.empty, trace = []\<rparr>)))) = 0"
proof -
  have "peak_from 0 (drop 0 (trace (snd (fetch_user_data default_config ex_net ex_parse 5 1000 \<lparr>index = Map.empty, files = Map.empty, trace = []\<rparr>)))) = 2"
    by (simp add: fetch_eval)
  moreover have "requests (drop 0 (trace (snd (fetch_user_data default_config ex_net ex_parse 5 1000 \<lparr>index = Map.empty, files = Map.empty, trace = []\<rparr>)))) = 2"
    by (simp add: fetch_eval)
  ultimately show ?thesis
    using fetch_nests_permits [where c = default_config and net = ex_net and parse = ex_parse and uid = 5
        and r = 1000 and w = "\<lparr>index = Map.empty, files = Map.empty, trace = []\<rparr>", OF prod.collapse [symmetric]]
    by simp
qed

text \<open>
  C10. Run alone against a semaphore of \<open>N\<close> permits, a call completes exactly when
  it makes at most \<open>N\<close> requests; with more it waits on its own permits forever. So
  \<open>MAX_CONCURRENT_REQUESTS < MAX_RETRIES + 1\<close> lets a single failing id hang the
  batch.
\<close>

theorem lone_worker_needs_permits:
  assumes "fetch_user_data c net parse uid r w = (res, w')"
  shows "gate_replay N (drop (length (trace w)) (trace w')) =
           (if requests (drop (length (trace w)) (trace w')) \<le> N then Some N else None)"
proof -
  obtain t where t: "trace w' = trace w @ t" "held t = 0" "peak_from 0 t = int (requests t)"
    using fetch_trace_nesting [OF assms] by blast
  then show ?thesis by (simp add: gate_replay_peak)
qed

theorem lone_worker_needs_permits_witness:
  "fetch_user_data small_config (\<lambda>_ _. ConnectorFailure) ex_parse 5 2 \<lparr>index = Map.empty, files = Map.empty, trace = []\<rparr> =
     (fst (fetch_user_data small_config (\<lambda>_ _. ConnectorFailure) ex_parse 5 2 \<lparr>index = Map.empty, files = Map.empty, trace = []\<rparr>),
      snd (fetch_user_data small_config (\<lambda>_ _. ConnectorFailure) ex_parse 5 2 \<lparr>index = Map.empty, files = Map.empty, trace = []\<rparr>)) \<and>
   gate_replay 2 (drop 0 (trace (snd (fetch_user_data small_config (\<lambda>_ _. ConnectorFailure) ex_parse 5 2 \<lparr>index = Map.empty, files = Map.empty, trace = []\<rparr>)))) = None"
proof -
  have "requests (drop 0 (trace (snd (fetch_user_data small_config (\<lambda>_ _. ConnectorFailure) ex_parse 5 2 \<lparr>index = Map.empty, files = Map.empty, trace = []\<rparr>)))) = 3"
    by (simp add: fetch_eval)
  then show ?thesis
    using lone_worker_needs_permits [where c = small_config and net = "\<lambda>_ _. ConnectorFailure"
        and parse = ex_parse and uid = 5 and r = 2 and w = "\<lparr>index = Map.empty, files = Map.empty, trace = []\<rparr>" and N = 2, OF prod.collapse [symmetric]]
    by simp
qed

text \<open>
  A worker trace only issues a request while its task holds a permit: reading the
  trace from a holding count \<open>h\<close>, every \<open>Get\<close> comes at a positive count.
\<close>

fun guarded :: "int \<Rightarrow> effect list \<Rightarrow> bool" where
  "guarded h [] = True"
| "guarded h (Acquire # tr) = guarded (h + 1) tr"
| "guarded h (Release # tr) = guarded (h - 1) tr"
| "guarded h (Get v # tr) = (0 < h \<and> guarded h tr)"
| "guarded h (e # tr) = guarded h tr"

text \<open>The tasks whose next effect is a request: those about to call the service.\<close>

definition requesting :: "gate \<Rightarrow> nat list" where
  "requesting g = filter (\<lambda>i. is_request (hd (tasks g ! i)) \<and> tasks g ! i \<noteq> []) [0..<length (tasks g)]"

lemma guarded_append: "guarded h (xs @ ys) = (guarded h xs \<and> guarded (h + held xs) ys)"
  by (induction h xs rule: guarded.induct) (simp_all add: algebra_simps)

lemma guarded_mono: "guarded h t \<Longrightarrow> h \<le> h' \<Longrightarrow> guarded h' t"
  by (induction h t arbitrary: h' rule: guarded.induct) auto

lemma plain_guarded: "plain p \<Longrightarrow> 0 < h \<Longrightarrow> guarded h p"
  by (induction h p rule: guarded.induct) (auto simp: plain_def)

lemma fetch_trace_guarded:
  "fetch_user_data c net parse uid r w = (res, w') \<Longrightarrow> \<exists>t. trace w' = trace w @ t \<and> guarded 0 t"
proof (erule fetch_trace_shape)
  fix p assume "plain p"
  then show "guarded 0 (Acquire # p @ [Release])"
    by (simp add: guarded_append plain_guarded plain_held)
next
  fix p d t assume p: "plain p" and t: "guarded 0 t"
  have "guarded 1 t" using guarded_mono [OF t] by simp
  with p show "guarded 0 (Acquire # p @ Sleep d # t @ [Release])"
    by (simp add: guarded_append plain_guarded plain_held)
qed simp

definition gate_guarded :: "gate \<Rightarrow> bool" where
  "gate_guarded g \<longleftrightarrow> (\<forall>i < length (tasks g). guarded (holding g ! i) (tasks g ! i))"

lemma gate_step_guarded:
  assumes "gate_step g g'" "gate_guarded g" "gate_inv n g"
  shows "gate_guarded g'"
  using assms
proof (induction rule: gate_step.induct)
  case (acquire i g rest)
  then show ?case
    by (auto simp: gate_guarded_def gate_inv_def nth_list_update dest!: spec [where x = i])
next
  case (release i g rest)
  then show ?case
    by (auto simp: gate_guarded_def gate_inv_def nth_list_update dest!: spec [where x = i])
next
  case (other i g e rest)
  then show ?case
    by (cases e) (auto simp: gate_guarded_def gate_inv_def nth_list_update dest!: spec [where x = i])
qed

lemma gate_reach_guarded:
  assumes "gate_reach n ts g" "list_all worker_trace ts"
  shows "gate_guarded g"
  using assms(1)
proof (induction rule: gate_reach.induct)
  case init
  have "guarded 0 t" if "worker_trace t" for t
    using that by (auto simp: worker_trace_def dest!: fetch_trace_guarded)
  with assms(2) show ?case
    by (auto simp: gate_guarded_def gate_init_def list_all_length)
next
  case (step g g')
  then show ?case using gate_step_guarded gate_reach_inv by blast
qed

lemma length_filter_imp:
  "(\<And>x. x \<in> set xs \<Longrightarrow> P x \<Longrightarrow> Q x) \<Longrightarrow> length (filter P xs) \<le> length (filter Q xs)"
  by (induction xs) auto

lemma requesting_inside:
  assumes "gate_guarded g"
  shows "length (requesting g) \<le> length (inside g)"
  unfolding requesting_def inside_def
proof (rule length_filter_imp)
  fix i assume "i \<in> set [0..<length (tasks g)]"
    and r: "is_request (hd (tasks g ! i)) \<and> tasks g ! i \<noteq> []"
  then have i: "i < length (tasks g)" by simp
  from r obtain v rest where "tasks g ! i = Get v # rest"
    by (cases "tasks g ! i"; cases "hd (tasks g ! i)") auto
  with assms i show "0 < holding g ! i" by (auto simp: gate_guarded_def)
qed

text \<open>
  C11. However the event loop interleaves the workers of a batch, the permits free and
  held add up to the semaphore's size, and at most that many workers are about to
  issue their request at once (the spec's "at most N in-flight calls"): a task
  reaches a \<open>session.get\<close> only while it holds a permit.
\<close>

theorem gate_bounds_requests:
  assumes "gate_reach n ts g" "list_all worker_trace ts"
  shows "int (free g) + sum_list (holding g) = int n \<and> length (requesting g) \<le> n"
proof
  show "int (free g) + sum_list (holding g) = int n"
    using gate_reach_inv [OF assms(1)] by (simp add: gate_inv_def)
  have "length (requesting g) \<le> length (inside g)"
    by (rule requesting_inside [OF gate_reach_guarded [OF assms]])
  also have "\<dots> \<le> n"
    by (rule inside_bound [OF gate_reach_inv [OF assms(1)] gate_reach_well_nested [OF assms]])
  finally show "length (requesting g) \<le> n" .
qed

theorem gate_bounds_requests_witness:
  "gate_reach 1 [[Acquire, Get 7, Print (LogNoResources 7), Sleep 1, Release],
                 [Acquire, Get 7, Print (LogNoResources 7), Sleep 1, Release]]
     \<lparr>free = 0, tasks = [[Get 7, Print (LogNoResources 7), Sleep 1, Release],
                         [Acquire, Get 7, Print (LogNoResources 7), Sleep 1, Release]], holding = [1, 0]\<rparr> \<and>
   list_all worker_trace [[Acquire, Get 7, Print (LogNoResources 7), Sleep 1, Release],
                          [Acquire, Get 7, Print (LogNoResources 7), Sleep 1, Release]] \<and>
   requesting \<lparr>free = 0, tasks = [[Get 7, Print (LogNoResources 7), Sleep 1, Release],
                         [Acquire, Get 7, Print (LogNoResources 7), Sleep 1, Release]], holding = [1, 0]\<rparr> = [0] \<and>
   int 0 + sum_list [1, 0] = int 1 \<and> length [0::nat] \<le> 1"
proof -
  let ?t = "[Acquire, Get 7, Print (LogNoResources 7), Sleep 1, Release]"
  let ?g = "\<lparr>free = 0, tasks = [tl ?t, ?t], holding = [1, 0]\<rparr> :: gate"
  have run: "fetch_user_data default_config ex_net ex_parse 7 1000 \<lparr>index = Map.empty, files = Map.empty, trace = []\<rparr> =
      (Inr NoResources, \<lparr>index = Map.empty, files = Map.empty, trace = ?t\<rparr>)"
    by (simp add: fetch_eval)
  have wt: "worker_trace ?t"
    unfolding worker_trace_def by (intro exI conjI, rule run) simp
  have "gate_step (gate_init 1 [?t, ?t]) ?g"
    using gate_step.acquire [of 0 "gate_init 1 [?t, ?t]" "tl ?t"] by (simp add: gate_init_def)
  then have r: "gate_reach 1 [?t, ?t] ?g" by (rule gate_reach.step [OF gate_reach.init])
  have q: "requesting ?g = [0]" by (simp add: requesting_def upt_rec)
  from gate_bounds_requests [OF r] wt r q show ?thesis by simp
qed

text \<open>
  C12. Two workers whose first attempt is retried can deadlock a semaphore of two
  permits: each takes one permit, sleeps, and re-enters \<open>async with semaphore\<close>
  while holding it; both then wait for a permit only the other could release, and
  neither trace can advance.
\<close>

theorem retrying_workers_deadlock:
  assumes "fetch_user_data c1 net1 parse1 uid1 r1 w1 = (res1, w1')" "py_str_int uid1 \<notin> dom (index w1)"
    "\<exists>v. attempt c1 net1 parse1 uid1 r1 (emit Acquire w1) = Retry v"
  and "fetch_user_data c2 net2 parse2 uid2 r2 w2 = (res2, w2')" "py_str_int uid2 \<notin> dom (index w2)"
    "\<exists>v. attempt c2 net2 parse2 uid2 r2 (emit Acquire w2) = Retry v"
  shows "\<exists>g. gate_reach 2 [drop (length (trace w1)) (trace w1'), drop (length (trace w2)) (trace w2')] g
             \<and> (\<forall>g'. \<not> gate_step g g') \<and> list_all (\<lambda>t. t \<noteq> []) (tasks g)"
proof -
  obtain p1 q1 where t1: "trace w1' = trace w1 @ Acquire # p1 @ Acquire # q1" "plain p1"
    using fetch_first_retry_shape [OF assms(1,2)] assms(3) by blast
  obtain p2 q2 where t2: "trace w2' = trace w2 @ Acquire # p2 @ Acquire # q2" "plain p2"
    using fetch_first_retry_shape [OF assms(4,5)] assms(6) by blast
  show ?thesis
    using two_acquirers_deadlock [OF t1(2) t2(2), of q1 q2] t1(1) t2(1)
    by (intro exI [where x = "\<lparr>free = 0, tasks = [Acquire # q1, Acquire # q2], holding = [1, 1]\<rparr>"]) simp
qed

theorem retrying_workers_deadlock_witness:
  "fetch_user_data default_config ex_net ex_parse 5 1000 \<lparr>index = Map.empty, files = Map.empty, trace = []\<rparr> =
     (fst (fetch_user_data default_config ex_net ex_parse 5 1000 \<lparr>index = Map.empty, files = Map.empty, trace = []\<rparr>),
      snd (fetch_user_data default_config ex_net ex_parse 5 1000 \<lparr>index = Map.empty, files = Map.empty, trace = []\<rparr>)) \<and>
   py_str_int 5 \<notin> dom (index \<lparr>index = Map.empty, files = Map.empty, trace = []\<rparr>) \<and>
   (\<exists>v. attempt default_config ex_net ex_parse 5 1000 (emit Acquire \<lparr>index = Map.empty, files = Map.empty, trace = []\<rparr>) = Retry v) \<and>
   fetch_user_data default_config ex_net ex_parse 6 1000 \<lparr>index = Map.empty, files = Map.empty, trace = []\<rparr> =
     (fst (fetch_user_data default_config ex_net ex_parse 6 1000 \<lparr>index = Map.empty, files = Map.empty, trace = []\<rparr>),
      snd (fetch_user_data default_config ex_net ex_parse 6 1000 \<lparr>index = Map.empty, files = Map.empty, trace = []\<rparr>)) \<and>
   py_str_int 6 \<notin> dom (index \<lparr>index = Map.empty, files = Map.empty, trace = []\<rparr>) \<and>
   (\<exists>v. attempt default_config ex_net ex_parse 6 1000 (emit Acquire \<lparr>index = Map.empty, files = Map.empty, trace = []\<rparr>) = Retry v) \<and>
   (\<exists>g. gate_reach 2 [drop 0 (trace (snd (fetch_user_data default_config ex_net ex_parse 5 1000 \<lparr>index = Map.empty, files = Map.empty, trace = []\<rparr>))),
                      drop 0 (trace (snd (fetch_user_data default_config ex_net ex_parse 6 1000 \<lparr>index = Map.empty, files = Map.empty, trace = []\<rparr>)))] g
        \<and> (\<forall>g'. \<not> gate_step g g') \<and> list_all (\<lambda>t. t \<noteq> []) (tasks g))"
proof -
  have f5: "py_str_int 5 \<notin> dom (index \<lparr>index = Map.empty, files = Map.empty, trace = []\<rparr>)" and f6: "py_str_int 6 \<notin> dom (index \<lparr>index = Map.empty, files = Map.empty, trace = []\<rparr>)"
    by (simp_all add: fetch_eval)
  have a5: "\<exists>v. attempt default_config ex_net ex_parse 5 1000 (emit Acquire \<lparr>index = Map.empty, files = Map.empty, trace = []\<rparr>) = Retry v"
    and a6: "\<exists>v. attempt default_config ex_net ex_parse 6 1000 (emit Acquire \<lparr>index = Map.empty, files = Map.empty, trace = []\<rparr>) = Retry v"
    by (simp_all add: fetch_eval)
  show ?thesis
    using retrying_workers_deadlock [OF prod.collapse [symmetric] f5 a5 prod.collapse [symmetric] f6 a6]
      f5 f6 a5 a6 by simp
qed

end
