(* ===== verification/Batch.thy ===== *)
theory Batch
  imports Gate
begin

text \<open>
  The batch driver of \<open>src/grab_mayhemids.py\<close>: \<open>process_users\<close> (lines 113--120)
  and \<open>main\<close> (lines 122--135). \<open>main\<close> loads the index once, splits
  \<open>[START_ID, END_ID]\<close> with \<open>range(START_ID, END_ID + 1, batch_size)\<close> into
  batches, and awaits \<open>process_users\<close> on each batch in turn; \<open>process_users\<close>
  creates one \<open>fetch_user_data\<close> task per id of the batch and awaits them with
  \<open>asyncio.gather\<close>. Within a batch the model runs the workers one after the other
  in the order of the batch; the lemmas \<open>run_workers_outcomes\<close> and
  \<open>run_workers_index_at\<close> show that each worker's outcome and index entry do not
  depend on the workers before it, which is what makes this schedule stand for the
  concurrent one (the interleaving of the semaphore operations is theory \<open>Gate\<close>).
\<close>

section \<open>range()\<close>

text \<open>\<open>range(a, b, step)\<close>: ascending for a positive step, descending for a negative one.\<close>

function py_range_step :: "int \<Rightarrow> int \<Rightarrow> int \<Rightarrow> int list" where
  "py_range_step a b s =
     (if 0 < s \<and> a < b then a # py_range_step (a + s) b s
      else if s < 0 \<and> b < a then a # py_range_step (a + s) b s
      else [])"
  by pat_completeness auto
termination
  by (relation "measure (\<lambda>(a, b, s). nat (if 0 < s then b - a else a - b))") auto

declare py_range_step.simps [simp del]

text \<open>\<open>range\<close> raises \<open>ValueError\<close> for a step of 0.\<close>

definition py_range :: "int \<Rightarrow> int \<Rightarrow> int \<Rightarrow> int list option" where
  "py_range a b s = (if s = 0 then None else Some (py_range_step a b s))"

text \<open>Lines 130--132: the batches \<open>(start_id, end_id)\<close> of the loop of \<open>main\<close>.\<close>

definition batch_ranges :: "config \<Rightarrow> (int \<times> int) list option" where
  "batch_ranges c =
     map_option (map (\<lambda>s. (s, min (s + batch_size c - 1) (end_id c))))
       (py_range (start_id c) (end_id c + 1) (batch_size c))"

section \<open>The driver\<close>

text \<open>
  \<open>process_users\<close> (lines 113--120): one \<open>fetch_user_data\<close> per id of
  \<open>range(start_id, end_id + 1)\<close> (the interval \<open>[start_id..end_id]\<close>) with the
  default \<open>retries = MAX_RETRIES\<close>; \<open>gather\<close> collects the outcomes in the order
  of the ids, and an exception of a worker propagates out of it.
\<close>

fun run_workers ::
  "config \<Rightarrow> network \<Rightarrow> xml_parser \<Rightarrow> int list \<Rightarrow> world \<Rightarrow> (exc + (int \<times> outcome) list) \<times> world" where
  "run_workers c net parse [] w = (Inr [], w)"
| "run_workers c net parse (uid # uids) w =
     (case fetch_user_data c net parse uid (max_retries c) w of
        (Inl e, w') \<Rightarrow> (Inl e, w')
      | (Inr out, w') \<Rightarrow>
          (case run_workers c net parse uids w' of
             (Inl e, w'') \<Rightarrow> (Inl e, w'')
           | (Inr outs, w'') \<Rightarrow> (Inr ((uid, out) # outs), w'')))"

definition process_users ::
  "config \<Rightarrow> network \<Rightarrow> xml_parser \<Rightarrow> int \<Rightarrow> int \<Rightarrow> world \<Rightarrow> (exc + (int \<times> outcome) list) \<times> world" where
  "process_users c net parse start stop w = run_workers c net parse [start..stop] w"

text \<open>The loop of \<open>main\<close> over the batches (lines 131--135), with its two prints.\<close>

fun run_batches ::
  "config \<Rightarrow> network \<Rightarrow> xml_parser \<Rightarrow> (int \<times> int) list \<Rightarrow> world \<Rightarrow> (exc + (int \<times> outcome) list) \<times> world" where
  "run_batches c net parse [] w = (Inr [], w)"
| "run_batches c net parse ((s, e) # bs) w =
     (case process_users c net parse s e (emit (Print (LogProcessing s e)) w) of
        (Inl ex, w') \<Rightarrow> (Inl ex, w')
      | (Inr outs, w') \<Rightarrow>
          (case run_batches c net parse bs (emit (Print (LogFinished s e)) w') of
             (Inl ex, w'') \<Rightarrow> (Inl ex, w'')
           | (Inr outs', w'') \<Rightarrow> (Inr (outs @ outs'), w'')))"

text \<open>How \<open>main\<close> ends when it does not complete.\<close>

datatype main_error = RangeValueError | WorkerRaised exc

text \<open>
  Line 127: the world after \<open>load_existing_files()\<close>, from the listing of the
  working directory and its contents.
\<close>

definition init_world :: "string list \<Rightarrow> (string \<rightharpoonup> string) \<Rightarrow> world" where
  "init_world listing files0 =
     \<lparr>index = load_existing_files Map.empty listing, files = files0, trace = []\<rparr>"

text \<open>
  \<open>main\<close> (lines 122--135): the index loaded once, then the batches in order. The
  semaphore it creates is the subject of theory \<open>Gate\<close>.
\<close>

definition main ::
  "config \<Rightarrow> network \<Rightarrow> xml_parser \<Rightarrow> string list \<Rightarrow> (string \<rightharpoonup> string) \<Rightarrow>
   (main_error + (int \<times> outcome) list) \<times> world" where
  "main c net parse listing files0 =
     (case batch_ranges c of
        None \<Rightarrow> (Inl RangeValueError, init_world listing files0)
      | Some bs \<Rightarrow>
          (case run_batches c net parse bs (init_world listing files0) of
             (Inl e, w) \<Rightarrow> (Inl (WorkerRaised e), w)
           | (Inr outs, w) \<Rightarrow> (Inr outs, w)))"

section \<open>Batches cover the range\<close>

lemma py_range_step_pos:
  "0 < s \<Longrightarrow> py_range_step a b s = (if a < b then a # py_range_step (a + s) b s else [])"
  by (subst py_range_step.simps) simp

lemma batches_cover:
  "0 < s \<Longrightarrow> concat (map (\<lambda>x. [x..min (x + s - 1) (b - 1)]) (py_range_step a b s)) = [a..b - 1]"
proof (induction a b s rule: py_range_step.induct)
  case (1 a b s)
  show ?case
  proof (cases "a < b")
    case True
    have split: "[a..b - 1] = [a..min (a + s - 1) (b - 1)] @ [a + s..b - 1]"
    proof (cases "a + s - 1 < b - 1")
      case True
      then show ?thesis using upto_split2 [of a "a + s - 1" "b - 1"] "1.prems" by simp
    next
      case False
      then show ?thesis using "1.prems" by simp
    qed
    from True "1.prems" have "py_range_step a b s = a # py_range_step (a + s) b s"
      by (simp add: py_range_step_pos)
    with True "1.prems" "1.IH" split show ?thesis by simp
  next
    case False
    then show ?thesis using "1.prems" by (simp add: py_range_step_pos)
  qed
qed

lemma batch_ranges_Some:
  "0 < batch_size c \<Longrightarrow>
   batch_ranges c = Some (map (\<lambda>s. (s, min (s + batch_size c - 1) (end_id c)))
                              (py_range_step (start_id c) (end_id c + 1) (batch_size c)))"
  by (simp add: batch_ranges_def py_range_def)

lemma batch_ranges_cover:
  "0 < batch_size c \<Longrightarrow> batch_ranges c = Some bs \<Longrightarrow>
   concat (map (\<lambda>(s, e). [s..e]) bs) = [start_id c..end_id c]"
  using batches_cover [of "batch_size c" "end_id c + 1" "start_id c"]
  by (auto simp: batch_ranges_Some comp_def)

lemma batch_ranges_distinct:
  "0 < batch_size c \<Longrightarrow> batch_ranges c = Some bs \<Longrightarrow> distinct (concat (map (\<lambda>(s, e). [s..e]) bs))"
  by (simp add: batch_ranges_cover)

lemma ranges_Cons:
  "concat (map (\<lambda>(s, e). [s..e]) ((a, b) # bs)) = [a..b] @ concat (map (\<lambda>(s, e). [s..e]) bs)"
  by simp

lemma ranges_Cons_distinct:
  "distinct (concat (map (\<lambda>(s, e). [s..e]) ((a, b) # bs))) \<Longrightarrow>
   set [a..b] \<inter> set (concat (map (\<lambda>(s, e). [s..e]) bs)) = {} \<and> distinct (concat (map (\<lambda>(s, e). [s..e]) bs))"
  by (simp only: ranges_Cons distinct_append)

section \<open>How main ends\<close>

lemma main_Inr:
  assumes "main c net parse listing files0 = (Inr outs, w)"
  shows "\<exists>bs. batch_ranges c = Some bs \<and> run_batches c net parse bs (init_world listing files0) = (Inr outs, w)"
proof (cases "batch_ranges c")
  case None
  with assms show ?thesis by (simp add: main_def)
next
  case (Some bs)
  obtain r w' where run: "run_batches c net parse bs (init_world listing files0) = (r, w')" by fastforce
  with Some assms show ?thesis by (cases r) (simp_all add: main_def)
qed

lemma main_Inl:
  assumes "main c net parse listing files0 = (Inl (WorkerRaised e), w)"
  shows "\<exists>bs. batch_ranges c = Some bs \<and> run_batches c net parse bs (init_world listing files0) = (Inl e, w)"
proof (cases "batch_ranges c")
  case None
  with assms show ?thesis by (simp add: main_def)
next
  case (Some bs)
  obtain r w' where run: "run_batches c net parse bs (init_world listing files0) = (r, w')" by fastforce
  with Some assms show ?thesis by (cases r) (simp_all add: main_def)
qed

lemma main_run:
  assumes "main c net parse listing files0 = (r, w)"
  shows "w = init_world listing files0 \<or>
         (\<exists>bs r'. batch_ranges c = Some bs \<and> run_batches c net parse bs (init_world listing files0) = (r', w))"
proof (cases "batch_ranges c")
  case None
  with assms show ?thesis by (simp add: main_def)
next
  case (Some bs)
  obtain r' w' where run: "run_batches c net parse bs (init_world listing files0) = (r', w')" by fastforce
  with Some assms show ?thesis by (cases r') (auto simp: main_def)
qed

section \<open>One worker does not depend on the others\<close>

text \<open>What an attempt decides, without the world it leaves.\<close>

definition attempt_result :: "attempt_end \<Rightarrow> (exc + outcome) option" where
  "attempt_result a = (case a of Done r _ \<Rightarrow> Some r | Retry _ \<Rightarrow> None)"

lemma attempt_result_world:
  "attempt_result (attempt c net parse uid r w) = attempt_result (attempt c net parse uid r w')"
  by (simp add: attempt_def save_response_def Let_def attempt_result_def
      split: get_result.splits body_read.splits option.splits)

lemma attempt_same_end:
  assumes "attempt_result (attempt c net parse uid r w) = attempt_result (attempt c net parse uid r w')"
  shows "(\<exists>a b. attempt c net parse uid r w = Done res a \<and> attempt c net parse uid r w' = Done res b)
         \<or> (\<forall>a. attempt c net parse uid r w \<noteq> Done res a)"
  using assms by (cases "attempt c net parse uid r w"; cases "attempt c net parse uid r w'")
     (auto simp: attempt_result_def)

text \<open>
  The result of a call depends on the world only through the skip test: two worlds
  that agree on whether the id is indexed give the same result.
\<close>

lemma fetch_outcome_local:
  "(py_str_int uid \<in> dom (index w)) = (py_str_int uid \<in> dom (index w')) \<Longrightarrow>
   fst (fetch_user_data c net parse uid r w) = fst (fetch_user_data c net parse uid r w')"
proof (induction c net parse uid r w arbitrary: w' rule: fetch_user_data.induct)
  case (1 c net parse uid r w)
  show ?case
  proof (cases "py_str_int uid \<in> dom (index w)")
    case True
    with "1.prems" show ?thesis by (simp add: fetch_user_data_skip)
  next
    case False
    with "1.prems" have F': "py_str_int uid \<notin> dom (index w')" by simp
    have ar: "attempt_result (attempt c net parse uid r (emit Acquire w)) =
              attempt_result (attempt c net parse uid r (emit Acquire w'))"
      by (rule attempt_result_world)
    show ?thesis
    proof (cases "attempt c net parse uid r (emit Acquire w)")
      case (Done res0 w0)
      then obtain w0' where "attempt c net parse uid r (emit Acquire w') = Done res0 w0'"
        using attempt_same_end [OF ar, of res0] by auto
      with Done False F' show ?thesis by (simp add: fetch_user_data_Done)
    next
      case (Retry w0)
      then obtain w0' where R': "attempt c net parse uid r (emit Acquire w') = Retry w0'"
        using ar by (cases "attempt c net parse uid r (emit Acquire w')") (auto simp: attempt_result_def)
      have "index w0 = index w" "index w0' = index w'"
        using attempt_Retry_frame [OF Retry] attempt_Retry_frame [OF R'] by simp_all
      with False F' have "fst (fetch_user_data c net parse uid (r - 1) (emit (Sleep (2 ^ (max_retries c - r))) w0)) =
                 fst (fetch_user_data c net parse uid (r - 1) (emit (Sleep (2 ^ (max_retries c - r))) w0'))"
        by (intro "1.IH" [OF False Retry]) simp
      with False F' Retry R' show ?thesis by (simp add: fetch_user_data_Retry case_prod_beta)
    qed
  qed
qed

lemma fetch_index:
  "fetch_user_data c net parse uid r w = (res, w') \<Longrightarrow>
   index w' = (case res of Inr (Saved f) \<Rightarrow> (index w)(py_str_int uid \<mapsto> f) | _ \<Rightarrow> index w)"
  by (drule fetch_user_data_effect) (auto simp: saves_def split: sum.split outcome.split)

lemma fetch_key_frame:
  "fetch_user_data c net parse u r w = (res, w') \<Longrightarrow> k \<noteq> py_str_int u \<Longrightarrow>
   index w' k = index w k \<and> dom (files w) \<subseteq> dom (files w')"
  by (drule fetch_user_data_effect) (auto simp: saves_def)

lemma fetch_saved_key:
  "fetch_user_data c net parse u r w = (Inr (Saved f), w') \<Longrightarrow>
   index w' (py_str_int u) = Some f \<and> f \<in> dom (files w') \<and> file_key f = Some (py_str_int u)"
  by (drule fetch_user_data_effect) (auto simp: saves_def)

lemma str_notin_image: "uid \<notin> set uids \<Longrightarrow> py_str_int uid \<notin> py_str_int ` set uids"
  by (auto simp: py_str_int_inj)

section \<open>The workers of one batch\<close>

lemma run_workers_Cons_Inr:
  assumes "run_workers c net parse (u # uids) w = (Inr outs, w')"
  obtains out w1 outs2 where "fetch_user_data c net parse u (max_retries c) w = (Inr out, w1)"
    and "run_workers c net parse uids w1 = (Inr outs2, w')" and "outs = (u, out) # outs2"
  using assms by (auto split: prod.splits sum.splits)

lemma run_workers_Cons_Inl:
  assumes "run_workers c net parse (u # uids) w = (Inl e, w')"
  obtains w1 where "fetch_user_data c net parse u (max_retries c) w = (Inl e, w')"
  | out w1 where "fetch_user_data c net parse u (max_retries c) w = (Inr out, w1)"
      and "run_workers c net parse uids w1 = (Inl e, w')"
  using assms by (auto split: prod.splits sum.splits)

lemma run_workers_order:
  "run_workers c net parse uids w = (Inr outs, w') \<Longrightarrow> map fst outs = uids"
  by (induction uids arbitrary: w outs) (auto split: prod.splits sum.splits)

text \<open>The two lines \<open>main\<close> prints around a batch; no worker prints them.\<close>

fun is_batch_note :: "effect \<Rightarrow> bool" where
  "is_batch_note (Print (LogProcessing _ _)) = True"
| "is_batch_note (Print (LogFinished _ _)) = True"
| "is_batch_note _ = False"

lemma attempt_no_notes:
  "attempt c net parse uid r w = Done res w' \<or> attempt c net parse uid r w = Retry w' \<Longrightarrow>
   \<exists>p. trace w' = trace w @ p \<and> filter is_batch_note p = []"
  by (auto simp: attempt_def save_response_def Let_def emit_def
      split: get_result.splits body_read.splits if_splits option.splits)

lemma fetch_no_notes:
  "fetch_user_data c net parse uid r w = (res, w') \<Longrightarrow> \<exists>t. trace w' = trace w @ t \<and> filter is_batch_note t = []"
proof (induction c net parse uid r w arbitrary: res w' rule: fetch_user_data.induct)
  case (1 c net parse uid r w)
  show ?case
  proof (cases "py_str_int uid \<in> dom (index w)")
    case True
    with "1.prems" show ?thesis
      by (intro exI [where x = "[Print (LogSkip uid)]"]) (auto simp: fetch_user_data_skip)
  next
    case False
    show ?thesis
    proof (cases "attempt c net parse uid r (emit Acquire w)")
      case (Done res0 w0)
      with False "1.prems" have w': "w' = emit Release w0" by (simp add: fetch_user_data_Done)
      obtain p where p: "trace w0 = trace w @ Acquire # p" "filter is_batch_note p = []"
        using attempt_no_notes [of c net parse uid r "emit Acquire w" res0 w0] Done by auto
      with w' show ?thesis by (intro exI [where x = "Acquire # p @ [Release]"]) simp
    next
      case (Retry w0)
      let ?d = "2 ^ (max_retries c - r)"
      obtain res1 w1 where rec: "fetch_user_data c net parse uid (r - 1) (emit (Sleep ?d) w0) = (res1, w1)"
        by fastforce
      with False Retry "1.prems" have w': "w' = emit Release w1" by (simp add: fetch_user_data_Retry)
      obtain p where p: "trace w0 = trace w @ Acquire # p" "filter is_batch_note p = []"
        using attempt_no_notes [of c net parse uid r "emit Acquire w" _ w0] Retry by auto
      have "\<exists>t. trace w1 = trace (emit (Sleep ?d) w0) @ t \<and> filter is_batch_note t = []"
        by (rule "1.IH" [OF False Retry rec])
      then obtain t where t: "trace w1 = trace w0 @ [Sleep ?d] @ t" "filter is_batch_note t = []" by auto
      with w' p show ?thesis
        by (intro exI [where x = "Acquire # p @ Sleep ?d # t @ [Release]"]) simp
    qed
  qed
qed

lemma run_workers_requests:
  "run_workers c net parse uids w = (r, w') \<Longrightarrow>
   \<exists>t. trace w' = trace w @ t \<and> set (filter is_request t) \<subseteq> Get ` set uids \<and> filter is_batch_note t = []"
proof (induction uids arbitrary: w r w')
  case Nil
  then show ?case by (intro exI [where x = "[]"]) simp
next
  case (Cons u uids)
  obtain res1 w1 where f: "fetch_user_data c net parse u (max_retries c) w = (res1, w1)" by fastforce
  obtain t1 where t1: "trace w1 = trace w @ t1" "set (filter is_request t1) \<subseteq> {Get u}"
    using fetch_trace_requests [OF f] by blast
  obtain t1' where "trace w1 = trace w @ t1'" "filter is_batch_note t1' = []"
    using fetch_no_notes [OF f] by blast
  with t1 have n1: "filter is_batch_note t1 = []" by simp
  show ?case
  proof (cases res1)
    case (Inl e)
    with Cons.prems f t1 n1 show ?thesis by (intro exI [where x = t1]) auto
  next
    case (Inr out)
    obtain r2 w2 where rest: "run_workers c net parse uids w1 = (r2, w2)" by fastforce
    with Cons.prems f Inr have w': "w' = w2" by (auto split: sum.splits)
    obtain t2 where t2: "trace w2 = trace w1 @ t2" "set (filter is_request t2) \<subseteq> Get ` set uids"
      "filter is_batch_note t2 = []"
      using Cons.IH [OF rest] by blast
    from t1 n1 t2 w' show ?thesis by (intro exI [where x = "t1 @ t2"]) auto
  qed
qed

text \<open>A batch leaves the index alone outside the keys of its ids, and deletes no file.\<close>

lemma run_workers_keeps_key:
  "run_workers c net parse uids w = (r, w') \<Longrightarrow> k \<notin> py_str_int ` set uids \<Longrightarrow>
   index w' k = index w k \<and> dom (files w) \<subseteq> dom (files w')"
proof (induction uids arbitrary: w r w')
  case Nil
  then show ?case by simp
next
  case (Cons u uids)
  obtain res1 w1 where f: "fetch_user_data c net parse u (max_retries c) w = (res1, w1)" by fastforce
  have k1: "index w1 k = index w k" and d1: "dom (files w) \<subseteq> dom (files w1)"
    using fetch_key_frame [OF f, of k] Cons.prems(2) by auto
  show ?case
  proof (cases res1)
    case Inl
    with Cons.prems(1) f k1 d1 show ?thesis by auto
  next
    case Inr
    obtain r2 w2 where rest: "run_workers c net parse uids w1 = (r2, w2)" by fastforce
    with Cons.prems(1) f Inr have w': "w' = w2" by (auto split: sum.splits)
    have "k \<notin> py_str_int ` set uids" using Cons.prems(2) by simp
    with Cons.IH [OF rest] have k2: "index w2 k = index w1 k" and d2: "dom (files w1) \<subseteq> dom (files w2)"
      by simp_all
    have "dom (files w) \<subseteq> dom (files w2)" using d1 d2 by (blast intro: order_trans)
    with k1 k2 w' show ?thesis by simp
  qed
qed

text \<open>
  Each worker of a completed batch gets the result it would get alone on the world
  the batch started from.
\<close>

lemma run_workers_outcomes:
  "run_workers c net parse uids w = (Inr outs, w') \<Longrightarrow> distinct uids \<Longrightarrow>
   map (\<lambda>(u, out). (u, Inr out)) outs = map (\<lambda>u. (u, fst (fetch_user_data c net parse u (max_retries c) w))) uids"
proof (induction uids arbitrary: w outs w')
  case Nil
  then show ?case by simp
next
  case (Cons u uids)
  from Cons.prems(1) obtain out w1 outs2 where f: "fetch_user_data c net parse u (max_retries c) w = (Inr out, w1)"
    and rest: "run_workers c net parse uids w1 = (Inr outs2, w')" and outs: "outs = (u, out) # outs2"
    by (rule run_workers_Cons_Inr)
  have "fst (fetch_user_data c net parse v (max_retries c) w1) = fst (fetch_user_data c net parse v (max_retries c) w)"
    if "v \<in> set uids" for v
  proof (rule fetch_outcome_local)
    from that Cons.prems(2) have "py_str_int v \<noteq> py_str_int u" by (auto simp: py_str_int_inj)
    then show "(py_str_int v \<in> dom (index w1)) = (py_str_int v \<in> dom (index w))"
      using fetch_key_frame [OF f] by (simp add: domIff)
  qed
  with Cons.IH [OF rest] Cons.prems(2) f outs show ?case by simp
qed

lemma run_workers_index_at:
  "run_workers c net parse uids w = (Inr outs, w') \<Longrightarrow> distinct uids \<Longrightarrow> u \<in> set uids \<Longrightarrow>
   index w' (py_str_int u) =
     (case fst (fetch_user_data c net parse u (max_retries c) w) of
        Inr (Saved f) \<Rightarrow> Some f | _ \<Rightarrow> index w (py_str_int u))"
proof (induction uids arbitrary: w outs w')
  case Nil
  then show ?case by simp
next
  case (Cons v uids)
  from Cons.prems(1) obtain out w1 outs2 where f: "fetch_user_data c net parse v (max_retries c) w = (Inr out, w1)"
    and rest: "run_workers c net parse uids w1 = (Inr outs2, w')"
    by (rule run_workers_Cons_Inr)
  show ?case
  proof (cases "u = v")
    case True
    with Cons.prems(2) have "py_str_int u \<notin> py_str_int ` set uids" by (simp add: str_notin_image)
    with run_workers_keeps_key [OF rest] have "index w' (py_str_int u) = index w1 (py_str_int u)" by simp
    with True f show ?thesis by (simp add: fetch_index [OF f] split: outcome.split)
  next
    case False
    with Cons.prems(3) have u: "u \<in> set uids" by simp
    have k: "index w1 (py_str_int u) = index w (py_str_int u)"
      using fetch_key_frame [OF f] False by (simp add: py_str_int_inj)
    then have "fst (fetch_user_data c net parse u (max_retries c) w1) = fst (fetch_user_data c net parse u (max_retries c) w)"
      by (intro fetch_outcome_local) (simp add: domIff)
    with Cons.IH [OF rest _ u] Cons.prems(2) k show ?thesis by (simp split: sum.split outcome.split)
  qed
qed

lemma run_workers_saved:
  "run_workers c net parse uids w = (Inr outs, w') \<Longrightarrow> distinct uids \<Longrightarrow> (uid, Saved f) \<in> set outs \<Longrightarrow>
   index w' (py_str_int uid) = Some f \<and> f \<in> dom (files w') \<and> file_key f = Some (py_str_int uid)"
proof (induction uids arbitrary: w outs w')
  case Nil
  then show ?case by simp
next
  case (Cons u uids)
  from Cons.prems(1) obtain out w1 outs2 where f: "fetch_user_data c net parse u (max_retries c) w = (Inr out, w1)"
    and rest: "run_workers c net parse uids w1 = (Inr outs2, w')" and outs: "outs = (u, out) # outs2"
    by (rule run_workers_Cons_Inr)
  show ?case
  proof (cases "uid = u \<and> out = Saved f")
    case True
    with f have "index w1 (py_str_int u) = Some f \<and> f \<in> dom (files w1) \<and> file_key f = Some (py_str_int u)"
      by (auto dest: fetch_saved_key)
    moreover have "py_str_int u \<notin> py_str_int ` set uids" using Cons.prems(2) by (simp add: str_notin_image)
    with run_workers_keeps_key [OF rest]
    have "index w' (py_str_int u) = index w1 (py_str_int u) \<and> dom (files w1) \<subseteq> dom (files w')" by simp
    ultimately show ?thesis using True by auto
  next
    case False
    with Cons.prems(3) outs have "(uid, Saved f) \<in> set outs2" by auto
    with Cons.IH [OF rest] Cons.prems(2) show ?thesis by auto
  qed
qed

lemma run_workers_agrees:
  "run_workers c net parse uids w = (r, w') \<Longrightarrow> index_agrees (files w) (index w) \<Longrightarrow>
   index_agrees (files w') (index w')"
proof (induction uids arbitrary: w r w')
  case Nil
  then show ?case by simp
next
  case (Cons u uids)
  obtain res1 w1 where f: "fetch_user_data c net parse u (max_retries c) w = (res1, w1)" by fastforce
  have a1: "index_agrees (files w1) (index w1)"
    using fetch_user_data_effect [OF f] saves_index_agrees Cons.prems(2) by fastforce
  show ?case
  proof (cases res1)
    case Inl
    with Cons.prems(1) f a1 show ?thesis by auto
  next
    case Inr
    obtain r2 w2 where rest: "run_workers c net parse uids w1 = (r2, w2)" by fastforce
    with Cons.prems(1) f Inr have "w' = w2" by (auto split: sum.splits)
    with Cons.IH [OF rest a1] show ?thesis by simp
  qed
qed

section \<open>The batches of a run\<close>

lemma run_batches_Cons_Inr:
  assumes "run_batches c net parse ((s, e) # bs) w = (Inr outs, w')"
  obtains outs1 w1 outs2 where
    "run_workers c net parse [s..e] (emit (Print (LogProcessing s e)) w) = (Inr outs1, w1)"
    and "run_batches c net parse bs (emit (Print (LogFinished s e)) w1) = (Inr outs2, w')"
    and "outs = outs1 @ outs2"
  using assms by (auto simp: process_users_def split: prod.splits sum.splits)

lemma run_batches_order:
  "run_batches c net parse bs w = (Inr outs, w') \<Longrightarrow> map fst outs = concat (map (\<lambda>(s, e). [s..e]) bs)"
  by (induction c net parse bs w arbitrary: outs w' rule: run_batches.induct)
     (auto simp: process_users_def split: prod.splits sum.splits dest!: run_workers_order)

text \<open>
  A run that raises: the batches before the failing one were started and finished,
  the failing one was started and not finished, and requests were made for the ids
  of these batches only.
\<close>

lemma run_batches_abort:
  "run_batches c net parse bs w = (Inl ex, w') \<Longrightarrow>
   \<exists>pre b post t. bs = pre @ b # post \<and> trace w' = trace w @ t
     \<and> filter is_batch_note t =
         concat (map (\<lambda>(s, e). [Print (LogProcessing s e), Print (LogFinished s e)]) pre) @
         [Print (LogProcessing (fst b) (snd b))]
     \<and> set (filter is_request t) \<subseteq> Get ` set (concat (map (\<lambda>(s, e). [s..e]) (pre @ [b])))"
proof (induction c net parse bs w arbitrary: w' rule: run_batches.induct)
  case (1 c net parse w)
  then show ?case by simp
next
  case (2 c net parse s e bs w)
  let ?w1 = "emit (Print (LogProcessing s e)) w"
  obtain r1 w1 where pw: "run_workers c net parse [s..e] ?w1 = (r1, w1)" by fastforce
  obtain t1 where t1: "trace w1 = trace ?w1 @ t1" "set (filter is_request t1) \<subseteq> Get ` set [s..e]"
    "filter is_batch_note t1 = []"
    using run_workers_requests [OF pw] by blast
  show ?case
  proof (cases r1)
    case (Inl ex')
    with "2.prems" pw have "w' = w1" by (simp add: process_users_def)
    with t1 show ?thesis
      by (intro exI [where x = "[]"] exI [where x = "(s, e)"] exI [where x = bs]
          exI [where x = "Print (LogProcessing s e) # t1"]) auto
  next
    case (Inr outs1)
    with "2.prems" pw have rest: "run_batches c net parse bs (emit (Print (LogFinished s e)) w1) = (Inl ex, w')"
      by (auto simp: process_users_def split: prod.splits sum.splits)
    from "2.IH" [OF _ Inr rest] pw obtain pre b post t2 where q: "bs = pre @ b # post"
      "trace w' = trace (emit (Print (LogFinished s e)) w1) @ t2"
      "filter is_batch_note t2 =
         concat (map (\<lambda>(s, e). [Print (LogProcessing s e), Print (LogFinished s e)]) pre) @
         [Print (LogProcessing (fst b) (snd b))]"
      "set (filter is_request t2) \<subseteq> Get ` set (concat (map (\<lambda>(s, e). [s..e]) (pre @ [b])))"
      by (auto simp: process_users_def)
    let ?t = "Print (LogProcessing s e) # t1 @ Print (LogFinished s e) # t2"
    have "(s, e) # bs = ((s, e) # pre) @ b # post" using q(1) by simp
    moreover have "trace w' = trace w @ ?t" using q(2) t1(1) by simp
    moreover have "filter is_batch_note ?t =
         concat (map (\<lambda>(s, e). [Print (LogProcessing s e), Print (LogFinished s e)]) ((s, e) # pre)) @
         [Print (LogProcessing (fst b) (snd b))]"
      using q(3) t1(3) by simp
    moreover have "set (filter is_request ?t) \<subseteq> Get ` set (concat (map (\<lambda>(s, e). [s..e]) (((s, e) # pre) @ [b])))"
    proof -
      have "set (filter is_request ?t) = set (filter is_request t1) \<union> set (filter is_request t2)" by simp
      moreover have "set (concat (map (\<lambda>(s, e). [s..e]) (((s, e) # pre) @ [b]))) =
                     set [s..e] \<union> set (concat (map (\<lambda>(s, e). [s..e]) (pre @ [b])))" by simp
      ultimately show ?thesis using q(4) t1(2) by (simp only: image_Un) blast
    qed
    ultimately show ?thesis by blast
  qed
qed

lemma run_batches_keeps_key:
  "run_batches c net parse bs w = (r, w') \<Longrightarrow> uid \<notin> set (concat (map (\<lambda>(s, e). [s..e]) bs)) \<Longrightarrow>
   index w' (py_str_int uid) = index w (py_str_int uid) \<and> dom (files w) \<subseteq> dom (files w')"
proof (induction c net parse bs w arbitrary: r w' rule: run_batches.induct)
  case (1 c net parse w)
  then show ?case by simp
next
  case (2 c net parse s e bs w)
  let ?w1 = "emit (Print (LogProcessing s e)) w"
  obtain r1 w1 where pw: "run_workers c net parse [s..e] ?w1 = (r1, w1)" by fastforce
  have n0: "uid \<notin> set [s..e]" and n2: "uid \<notin> set (concat (map (\<lambda>(s, e). [s..e]) bs))"
    using "2.prems"(2) by (simp_all only: ranges_Cons set_append Un_iff de_Morgan_disj) blast+
  have n1: "py_str_int uid \<notin> py_str_int ` set [s..e]" using n0 by (rule str_notin_image)
  have k1: "index w1 (py_str_int uid) = index w (py_str_int uid)" and d1: "dom (files w) \<subseteq> dom (files w1)"
    using run_workers_keeps_key [OF pw n1] by simp_all
  show ?case
  proof (cases r1)
    case Inl
    with "2.prems"(1) pw k1 d1 show ?thesis by (auto simp: process_users_def)
  next
    case (Inr outs)
    obtain r2 w2 where rest: "run_batches c net parse bs (emit (Print (LogFinished s e)) w1) = (r2, w2)"
      by fastforce
    with "2.prems"(1) pw Inr have w': "w' = w2" by (auto simp: process_users_def split: sum.splits)
    have k2: "index w2 (py_str_int uid) = index w1 (py_str_int uid)" and d2: "dom (files w1) \<subseteq> dom (files w2)"
      using "2.IH" [OF _ Inr rest n2] pw by (simp_all add: process_users_def)
    have "dom (files w) \<subseteq> dom (files w2)" using d1 d2 by (blast intro: order_trans)
    with k1 k2 w' show ?thesis by simp
  qed
qed

lemma run_batches_agrees:
  "run_batches c net parse bs w = (r, w') \<Longrightarrow> index_agrees (files w) (index w) \<Longrightarrow>
   index_agrees (files w') (index w')"
proof (induction c net parse bs w arbitrary: r w' rule: run_batches.induct)
  case (1 c net parse w)
  then show ?case by simp
next
  case (2 c net parse s e bs w)
  let ?w1 = "emit (Print (LogProcessing s e)) w"
  obtain r1 w1 where pw: "run_workers c net parse [s..e] ?w1 = (r1, w1)" by fastforce
  have a1: "index_agrees (files w1) (index w1)"
    using run_workers_agrees [OF pw] "2.prems"(2) by simp
  show ?case
  proof (cases r1)
    case Inl
    with "2.prems"(1) pw a1 show ?thesis by (auto simp: process_users_def)
  next
    case (Inr outs)
    obtain r2 w2 where rest: "run_batches c net parse bs (emit (Print (LogFinished s e)) w1) = (r2, w2)"
      by fastforce
    with "2.prems"(1) pw Inr have "w' = w2" by (auto simp: process_users_def split: sum.splits)
    with "2.IH" [OF _ Inr rest] pw a1 show ?thesis by (simp add: process_users_def)
  qed
qed

lemma run_batches_saved:
  "run_batches c net parse bs w = (Inr outs, w') \<Longrightarrow> distinct (concat (map (\<lambda>(s, e). [s..e]) bs)) \<Longrightarrow>
   (uid, Saved f) \<in> set outs \<Longrightarrow>
   index w' (py_str_int uid) = Some f \<and> f \<in> dom (files w') \<and> file_key f = Some (py_str_int uid)"
proof (induction c net parse bs w arbitrary: outs w' rule: run_batches.induct)
  case (1 c net parse w)
  then show ?case by simp
next
  case (2 c net parse s e bs w)
  from "2.prems"(1) obtain outs1 w1 outs2
    where pw: "run_workers c net parse [s..e] (emit (Print (LogProcessing s e)) w) = (Inr outs1, w1)"
      and rest: "run_batches c net parse bs (emit (Print (LogFinished s e)) w1) = (Inr outs2, w')"
      and outs: "outs = outs1 @ outs2"
    by (rule run_batches_Cons_Inr)
  have dj: "set [s..e] \<inter> set (concat (map (\<lambda>(s, e). [s..e]) bs)) = {}"
    and ds: "distinct (concat (map (\<lambda>(s, e). [s..e]) bs))"
    using ranges_Cons_distinct [OF "2.prems"(2)] by simp_all
  show ?case
  proof (cases "(uid, Saved f) \<in> set outs1")
    case True
    have "uid \<in> set (map fst outs1)" using True by (force simp: image_iff)
    then have "uid \<in> set [s..e]" using run_workers_order [OF pw] by simp
    with dj have "uid \<notin> set (concat (map (\<lambda>(s, e). [s..e]) bs))" by blast
    with run_batches_keeps_key [OF rest]
    have "index w' (py_str_int uid) = index w1 (py_str_int uid) \<and> dom (files w1) \<subseteq> dom (files w')" by simp
    moreover have "index w1 (py_str_int uid) = Some f \<and> f \<in> dom (files w1) \<and> file_key f = Some (py_str_int uid)"
      using run_workers_saved [OF pw _ True] by simp
    ultimately show ?thesis by auto
  next
    case False
    with "2.prems"(3) outs have "(uid, Saved f) \<in> set outs2" by simp
    with "2.IH" [OF _ _ rest ds] pw show ?thesis by (simp add: process_users_def)
  qed
qed

text \<open>
  A completed run gives every id the result of its worker run alone on the world
  \<open>main\<close> started from.
\<close>

lemma run_batches_outcomes:
  "run_batches c net parse bs w = (Inr outs, w') \<Longrightarrow> distinct (concat (map (\<lambda>(s, e). [s..e]) bs)) \<Longrightarrow>
   map (\<lambda>(u, out). (u, Inr out)) outs =
     map (\<lambda>u. (u, fst (fetch_user_data c net parse u (max_retries c) w))) (concat (map (\<lambda>(s, e). [s..e]) bs))"
proof (induction c net parse bs w arbitrary: outs w' rule: run_batches.induct)
  case (1 c net parse w)
  then show ?case by simp
next
  case (2 c net parse s e bs w)
  let ?f = "\<lambda>v w. fst (fetch_user_data c net parse v (max_retries c) w)"
  from "2.prems"(1) obtain outs1 w1 outs2
    where pw: "run_workers c net parse [s..e] (emit (Print (LogProcessing s e)) w) = (Inr outs1, w1)"
      and rest: "run_batches c net parse bs (emit (Print (LogFinished s e)) w1) = (Inr outs2, w')"
      and outs: "outs = outs1 @ outs2"
    by (rule run_batches_Cons_Inr)
  have dj: "set [s..e] \<inter> set (concat (map (\<lambda>(s, e). [s..e]) bs)) = {}"
    and ds: "distinct (concat (map (\<lambda>(s, e). [s..e]) bs))"
    using ranges_Cons_distinct [OF "2.prems"(2)] by simp_all
  have o1: "map (\<lambda>(u, out). (u, Inr out)) outs1 = map (\<lambda>u. (u, ?f u w)) [s..e]"
  proof -
    have "?f u (emit (Print (LogProcessing s e)) w) = ?f u w" for u
      by (rule fetch_outcome_local) simp
    with run_workers_outcomes [OF pw] show ?thesis by simp
  qed
  have o2: "map (\<lambda>(u, out). (u, Inr out)) outs2 = map (\<lambda>u. (u, ?f u w)) (concat (map (\<lambda>(s, e). [s..e]) bs))"
  proof -
    have "?f u (emit (Print (LogFinished s e)) w1) = ?f u w"
      if "u \<in> set (concat (map (\<lambda>(s, e). [s..e]) bs))" for u
    proof (rule fetch_outcome_local)
      from that dj have "u \<notin> set [s..e]" by blast
      then have "py_str_int u \<notin> py_str_int ` set [s..e]" by (rule str_notin_image)
      from run_workers_keeps_key [OF pw this]
      show "(py_str_int u \<in> dom (index (emit (Print (LogFinished s e)) w1))) = (py_str_int u \<in> dom (index w))"
        by (simp add: domIff)
    qed
    with "2.IH" [OF _ _ rest ds] pw show ?thesis by (simp add: process_users_def)
  qed
  from o1 o2 outs show ?case by simp
qed

section \<open>The startup scan\<close>

lemma load_existing_files_agrees:
  "set fns \<subseteq> dom fs \<Longrightarrow> index_agrees fs d \<Longrightarrow> index_agrees fs (load_existing_files d fns)"
proof (induction fns arbitrary: d)
  case Nil
  then show ?case by simp
next
  case (Cons fn fns)
  have "index_agrees fs (case file_key fn of None \<Rightarrow> d | Some k \<Rightarrow> d(k \<mapsto> fn))"
  proof (cases "file_key fn")
    case None
    with Cons.prems(2) show ?thesis by simp
  next
    case (Some k)
    have "fn \<in> dom fs" using Cons.prems(1) by simp
    with Some Cons.prems(2) show ?thesis by (simp add: index_agrees_def)
  qed
  with Cons.IH [of "case file_key fn of None \<Rightarrow> d | Some k \<Rightarrow> d(k \<mapsto> fn)"] Cons.prems(1)
  show ?case by simp
qed

lemma load_existing_files_dom:
  "fn \<in> set fns \<Longrightarrow> file_key fn = Some k \<Longrightarrow> k \<in> dom (load_existing_files d fns)"
proof -
  assume "fn \<in> set fns" and "file_key fn = Some k"
  then have "filter (\<lambda>fn. file_key fn = Some k) fns \<noteq> []" by (auto simp: filter_empty_conv)
  then show ?thesis by (auto simp: load_existing_files_lookup split: list.split)
qed

section \<open>Batches are distinct and non-empty\<close>

lemma py_range_step_bounds: "0 < s \<Longrightarrow> x \<in> set (py_range_step a b s) \<Longrightarrow> a \<le> x \<and> x < b"
proof (induction a b s rule: py_range_step.induct)
  case (1 a b s)
  show ?case
  proof (cases "a < b")
    case True
    with "1.prems"(1) have eq: "py_range_step a b s = a # py_range_step (a + s) b s"
      by (simp add: py_range_step_pos)
    show ?thesis
    proof (cases "x = a")
      case True
      with \<open>a < b\<close> show ?thesis by simp
    next
      case False
      with "1.prems"(2) eq have "x \<in> set (py_range_step (a + s) b s)" by simp
      with "1.IH" "1.prems"(1) \<open>a < b\<close> show ?thesis by fastforce
    qed
  next
    case False
    with "1.prems" show ?thesis by (simp add: py_range_step_pos)
  qed
qed

lemma batch_ranges_nonempty:
  "0 < batch_size c \<Longrightarrow> batch_ranges c = Some bs \<Longrightarrow> (s, e) \<in> set bs \<Longrightarrow> s \<le> e"
proof -
  assume pos: "0 < batch_size c" and "batch_ranges c = Some bs" and "(s, e) \<in> set bs"
  then have s: "s \<in> set (py_range_step (start_id c) (end_id c + 1) (batch_size c))"
    and e: "e = min (s + batch_size c - 1) (end_id c)"
    by (auto simp: batch_ranges_Some)
  from py_range_step_bounds [OF pos s] have "s \<le> end_id c" by simp
  with pos e show "s \<le> e" by simp
qed

lemma distinct_nonempty_ranges:
  "distinct (concat (map (\<lambda>(s, e). [s..e]) bs)) \<Longrightarrow> (\<forall>(s, e) \<in> set bs. s \<le> e) \<Longrightarrow> distinct bs"
proof (induction bs)
  case Nil
  then show ?case by simp
next
  case (Cons x bs)
  obtain s e where x: "x = (s, e)" by fastforce
  have "x \<notin> set bs"
  proof
    assume "x \<in> set bs"
    then have "s \<in> set (concat (map (\<lambda>(s, e). [s..e]) bs))" using Cons.prems(2) x by force
    moreover have "s \<in> set [s..e]" using Cons.prems(2) x by simp
    ultimately show False using Cons.prems(1) x by (simp only: ranges_Cons distinct_append) blast
  qed
  moreover have "distinct (concat (map (\<lambda>(s, e). [s..e]) bs))"
    using ranges_Cons_distinct [of s e bs] Cons.prems(1) x by simp
  ultimately show ?case using Cons.IH Cons.prems(2) by simp
qed

lemma batch_ranges_distinct_batches:
  "0 < batch_size c \<Longrightarrow> batch_ranges c = Some bs \<Longrightarrow> distinct bs"
  using distinct_nonempty_ranges [OF batch_ranges_distinct] batch_ranges_nonempty by blast

lemma batch_note_mem:
  "Print (LogFinished s e) \<in> set (concat (map (\<lambda>(s, e). [Print (LogProcessing s e), Print (LogFinished s e)]) pre)) \<longleftrightarrow>
     (s, e) \<in> set pre"
  "Print (LogProcessing s e) \<in> set (concat (map (\<lambda>(s, e). [Print (LogProcessing s e), Print (LogFinished s e)]) pre)) \<longleftrightarrow>
     (s, e) \<in> set pre"
  by auto

section \<open>Requests of an aborted run\<close>

lemma ranges_mem: "(s, e) \<in> set bs \<Longrightarrow> v \<in> set [s..e] \<Longrightarrow> v \<in> set (concat (map (\<lambda>(s, e). [s..e]) bs))"
  by (induction bs) auto

lemma request_mem: "set (filter is_request t) \<subseteq> Get ` S \<Longrightarrow> Get v \<in> set t \<Longrightarrow> v \<in> S"
proof -
  assume sub: "set (filter is_request t) \<subseteq> Get ` S" and g: "Get v \<in> set t"
  from g have "Get v \<in> set (filter is_request t)" by simp
  with sub show "v \<in> S" by auto
qed

section \<open>Fixtures for the witnesses\<close>

text \<open>
  Runs over the ids 5--7 in batches of two (5 and 6 are saved after one 503, 7 is
  rejected) and over 5--9 (id 8 answers malformed XML, in the second batch of three).
\<close>

definition ex_run_config :: config where
  "ex_run_config = default_config\<lparr>start_id := 5, end_id := 7, batch_size := 2\<rparr>"

definition ex_raise_config :: config where
  "ex_raise_config = default_config\<lparr>start_id := 5, end_id := 9, batch_size := 2\<rparr>"

lemmas main_eval = fetch_eval main_def init_world_def batch_ranges_def py_range_def py_range_step.simps
  process_users_def ex_run_config_def ex_raise_config_def upto.simps
  file_key_def py_endswith_def suffix_to_prefix py_index_one

section \<open>Properties of a run\<close>

text \<open>
  C13. When \<open>main\<close> completes, every id of \<open>[START_ID, END_ID]\<close> has gone through
  exactly one call of \<open>fetch_user_data\<close>, in ascending order, batch after batch.
\<close>

theorem main_processes_range_in_order:
  assumes "0 < batch_size c" and "main c net parse listing files0 = (Inr outs, w)"
  shows "map fst outs = [start_id c..end_id c]"
proof -
  from main_Inr [OF assms(2)] obtain bs where bs: "batch_ranges c = Some bs"
    and run: "run_batches c net parse bs (init_world listing files0) = (Inr outs, w)" by blast
  show ?thesis
    using run_batches_order [OF run] batch_ranges_cover [OF assms(1) bs] by simp
qed

theorem main_processes_range_in_order_witness:
  "0 < batch_size ex_run_config \<and>
   main ex_run_config ex_net ex_parse [] Map.empty =
     (Inr [(5, Saved ''applicationUserId_5_mayhemId_m77.xml''), (6, Saved ''applicationUserId_6_mayhemId_m77.xml''),
           (7, NoResources)], snd (main ex_run_config ex_net ex_parse [] Map.empty)) \<and>
   map fst [(5::int, Saved ''applicationUserId_5_mayhemId_m77.xml''), (6, Saved ''applicationUserId_6_mayhemId_m77.xml''),
           (7, NoResources)] = [start_id ex_run_config..end_id ex_run_config]"
proof -
  have p: "0 < batch_size ex_run_config" by (simp add: main_eval)
  have m: "main ex_run_config ex_net ex_parse [] Map.empty =
     (Inr [(5, Saved ''applicationUserId_5_mayhemId_m77.xml''), (6, Saved ''applicationUserId_6_mayhemId_m77.xml''),
           (7, NoResources)], snd (main ex_run_config ex_net ex_parse [] Map.empty))"
    by (simp add: main_eval)
  show ?thesis using main_processes_range_in_order [OF p m] p m by (intro conjI)
qed

text \<open>
  C14. An exception that leaves a worker ends the whole run: \<open>gather\<close> re-raises it
  and \<open>main\<close> stops inside the loop. The batches before the failing one were
  started and finished, the failing one was started and never reported finished,
  and no later batch was started: none of its lines is printed and none of its ids
  requested. (Within the failing batch the other workers run concurrently in the
  program, so nothing is said about its other ids.)
\<close>

theorem main_stops_after_raise:
  assumes "0 < batch_size c" and "main c net parse listing files0 = (Inl (WorkerRaised e), w)"
  shows "\<exists>pre b post. batch_ranges c = Some (pre @ b # post) \<and>
           (\<forall>(s, e') \<in> set pre. Print (LogFinished s e') \<in> set (trace w)) \<and>
           Print (LogProcessing (fst b) (snd b)) \<in> set (trace w) \<and>
           Print (LogFinished (fst b) (snd b)) \<notin> set (trace w) \<and>
           (\<forall>(s, e') \<in> set post. Print (LogProcessing s e') \<notin> set (trace w) \<and>
              (\<forall>v \<in> set [s..e']. Get v \<notin> set (trace w)))"
proof -
  from main_Inl [OF assms(2)] obtain bs where bs: "batch_ranges c = Some bs"
    and run: "run_batches c net parse bs (init_world listing files0) = (Inl e, w)" by blast
  from run_batches_abort [OF run] obtain pre b post t where q1: "bs = pre @ b # post"
    and q2: "trace w = trace (init_world listing files0) @ t"
    and q3: "filter is_batch_note t =
      concat (map (\<lambda>(s, e). [Print (LogProcessing s e), Print (LogFinished s e)]) pre) @
      [Print (LogProcessing (fst b) (snd b))]"
    and q4: "set (filter is_request t) \<subseteq> Get ` set (concat (map (\<lambda>(s, e). [s..e]) (pre @ [b])))"
    by blast
  have tw: "trace w = t" using q2 by (simp add: init_world_def)
  have db: "distinct (pre @ b # post)" using batch_ranges_distinct_batches [OF assms(1) bs] q1 by simp
  have in_notes: "x \<in> set (filter is_batch_note t) \<longleftrightarrow>
      x \<in> set (concat (map (\<lambda>(s, e). [Print (LogProcessing s e), Print (LogFinished s e)]) pre)) \<or>
      x = Print (LogProcessing (fst b) (snd b))" for x
    by (simp only: q3 set_append Un_iff) simp
  have in_trace: "x \<in> set (filter is_batch_note t) \<longleftrightarrow> x \<in> set (trace w) \<and> is_batch_note x" for x
    using tw by simp
  have i: "\<forall>(s, e') \<in> set pre. Print (LogFinished s e') \<in> set (trace w)"
  proof (intro ballI, clarify)
    fix s e' assume "(s, e') \<in> set pre"
    then have "Print (LogFinished s e') \<in> set (filter is_batch_note t)"
      by (simp only: in_notes batch_note_mem simp_thms)
    then show "Print (LogFinished s e') \<in> set (trace w)" by (simp only: in_trace)
  qed
  have "Print (LogProcessing (fst b) (snd b)) \<in> set (filter is_batch_note t)"
    by (simp only: in_notes simp_thms)
  then have ii: "Print (LogProcessing (fst b) (snd b)) \<in> set (trace w)" by (simp only: in_trace)
  have iii: "Print (LogFinished (fst b) (snd b)) \<notin> set (trace w)"
  proof
    assume "Print (LogFinished (fst b) (snd b)) \<in> set (trace w)"
    then have "Print (LogFinished (fst b) (snd b)) \<in> set (filter is_batch_note t)" using tw by simp
    then have "(fst b, snd b) \<in> set pre" by (simp only: in_notes batch_note_mem) simp
    with db show False by simp
  qed
  have dj: "set (concat (map (\<lambda>(s, e). [s..e]) (pre @ [b]))) \<inter> set (concat (map (\<lambda>(s, e). [s..e]) post)) = {}"
  proof -
    have "distinct (concat (map (\<lambda>(s, e). [s..e]) (pre @ [b])) @ concat (map (\<lambda>(s, e). [s..e]) post))"
      using batch_ranges_distinct [OF assms(1) bs] q1 by simp
    then show ?thesis by (simp only: distinct_append)
  qed
  have iv: "\<forall>(s, e') \<in> set post. Print (LogProcessing s e') \<notin> set (trace w) \<and>
              (\<forall>v \<in> set [s..e']. Get v \<notin> set (trace w))"
  proof (intro ballI, clarify)
    fix s e' assume p: "(s, e') \<in> set post"
    have "Print (LogProcessing s e') \<notin> set (trace w)"
    proof
      assume "Print (LogProcessing s e') \<in> set (trace w)"
      then have "Print (LogProcessing s e') \<in> set (filter is_batch_note t)" using tw by simp
      then have "(s, e') \<in> set pre \<or> (s, e') = b" by (simp only: in_notes batch_note_mem) auto
      with db p show False by auto
    qed
    moreover have "\<forall>v \<in> set [s..e']. Get v \<notin> set (trace w)"
    proof (intro ballI notI)
      fix v assume v: "v \<in> set [s..e']" and g: "Get v \<in> set (trace w)"
      from p v have "v \<in> set (concat (map (\<lambda>(s, e). [s..e]) post))" by (rule ranges_mem)
      moreover have "Get v \<in> set t" using g tw by simp
      then have "v \<in> set (concat (map (\<lambda>(s, e). [s..e]) (pre @ [b])))" by (rule request_mem [OF q4])
      ultimately show False using dj by blast
    qed
    ultimately show "Print (LogProcessing s e') \<notin> set (trace w) \<and> (\<forall>v \<in> set [s..e']. Get v \<notin> set (trace w))"
      by blast
  qed
  from bs q1 i ii iii iv show ?thesis by blast
qed

theorem main_stops_after_raise_witness:
  "0 < batch_size ex_raise_config \<and>
   main ex_raise_config ex_net ex_parse [] Map.empty =
     (Inl (WorkerRaised ParseError), snd (main ex_raise_config ex_net ex_parse [] Map.empty)) \<and>
   batch_ranges ex_raise_config = Some [(5, 6), (7, 8), (9, 9)] \<and>
   (\<exists>pre b post. batch_ranges ex_raise_config = Some (pre @ b # post) \<and>
      (\<forall>(s, e') \<in> set pre. Print (LogFinished s e') \<in> set (trace (snd (main ex_raise_config ex_net ex_parse [] Map.empty)))) \<and>
      Print (LogProcessing (fst b) (snd b)) \<in> set (trace (snd (main ex_raise_config ex_net ex_parse [] Map.empty))) \<and>
      Print (LogFinished (fst b) (snd b)) \<notin> set (trace (snd (main ex_raise_config ex_net ex_parse [] Map.empty))) \<and>
      (\<forall>(s, e') \<in> set post. Print (LogProcessing s e') \<notin> set (trace (snd (main ex_raise_config ex_net ex_parse [] Map.empty))) \<and>
         (\<forall>v \<in> set [s..e']. Get v \<notin> set (trace (snd (main ex_raise_config ex_net ex_parse [] Map.empty))))))"
proof -
  have p: "0 < batch_size ex_raise_config" by (simp add: main_eval)
  have m: "main ex_raise_config ex_net ex_parse [] Map.empty =
     (Inl (WorkerRaised ParseError), snd (main ex_raise_config ex_net ex_parse [] Map.empty))"
    by (simp add: main_eval)
  have r: "batch_ranges ex_raise_config = Some [(5, 6), (7, 8), (9, 9)]" by (simp add: main_eval)
  from p m r main_stops_after_raise [OF p m] show ?thesis by (intro conjI)
qed

text \<open>
  C15. Started from a directory listing of existing files, the index agrees with the
  directory at the end of the run, whatever the run's result: every entry names a
  file that exists and carries the entry's id.
\<close>

theorem main_keeps_index_agreement:
  assumes "set listing \<subseteq> dom files0" and "main c net parse listing files0 = (r, w)"
  shows "index_agrees (files w) (index w)"
proof -
  have "index_agrees files0 Map.empty" by (simp add: index_agrees_def)
  with assms(1) have "index_agrees files0 (load_existing_files Map.empty listing)"
    by (rule load_existing_files_agrees)
  then have a0: "index_agrees (files (init_world listing files0)) (index (init_world listing files0))"
    by (simp add: init_world_def)
  from main_run [OF assms(2)] show ?thesis
  proof
    assume "w = init_world listing files0"
    with a0 show ?thesis by simp
  next
    assume "\<exists>bs r'. batch_ranges c = Some bs \<and> run_batches c net parse bs (init_world listing files0) = (r', w)"
    then obtain bs r' where "run_batches c net parse bs (init_world listing files0) = (r', w)" by blast
    from run_batches_agrees [OF this a0] show ?thesis .
  qed
qed

theorem main_keeps_index_agreement_witness:
  "set [''applicationUserId_6_mayhemId_q.xml''] \<subseteq> dom [''applicationUserId_6_mayhemId_q.xml'' \<mapsto> ''<old/>''] \<and>
   main ex_run_config ex_net ex_parse [''applicationUserId_6_mayhemId_q.xml''] [''applicationUserId_6_mayhemId_q.xml'' \<mapsto> ''<old/>''] =
     (fst (main ex_run_config ex_net ex_parse [''applicationUserId_6_mayhemId_q.xml''] [''applicationUserId_6_mayhemId_q.xml'' \<mapsto> ''<old/>'']),
      snd (main ex_run_config ex_net ex_parse [''applicationUserId_6_mayhemId_q.xml''] [''applicationUserId_6_mayhemId_q.xml'' \<mapsto> ''<old/>''])) \<and>
   index_agrees (files (snd (main ex_run_config ex_net ex_parse [''applicationUserId_6_mayhemId_q.xml''] [''applicationUserId_6_mayhemId_q.xml'' \<mapsto> ''<old/>''])))
     (index (snd (main ex_run_config ex_net ex_parse [''applicationUserId_6_mayhemId_q.xml''] [''applicationUserId_6_mayhemId_q.xml'' \<mapsto> ''<old/>''])))"
proof -
  have l: "set [''applicationUserId_6_mayhemId_q.xml''] \<subseteq> dom [''applicationUserId_6_mayhemId_q.xml'' \<mapsto> ''<old/>'']"
    by simp
  from l main_keeps_index_agreement [OF l prod.collapse [symmetric]] show ?thesis by (intro conjI prod.collapse [symmetric])
qed

text \<open>
  C16. A result the run saved stays recorded: at the end of a completed run the index
  maps every id whose call returned \<open>Saved f\<close> to \<open>f\<close>, and \<open>f\<close> exists. Distinct
  ids have distinct keys (\<open>str\<close> is injective on integers), so no later worker of
  the run overwrites the entry.
\<close>

theorem main_records_saved:
  assumes "0 < batch_size c" and "main c net parse listing files0 = (Inr outs, w)"
    and "(uid, Saved f) \<in> set outs"
  shows "index w (py_str_int uid) = Some f \<and> f \<in> dom (files w)"
proof -
  from main_Inr [OF assms(2)] obtain bs where bs: "batch_ranges c = Some bs"
    and run: "run_batches c net parse bs (init_world listing files0) = (Inr outs, w)" by blast
  from run_batches_saved [OF run batch_ranges_distinct [OF assms(1) bs] assms(3)] show ?thesis by simp
qed

theorem main_records_saved_witness:
  "0 < batch_size ex_run_config \<and>
   main ex_run_config ex_net ex_parse [] Map.empty =
     (Inr [(5, Saved ''applicationUserId_5_mayhemId_m77.xml''), (6, Saved ''applicationUserId_6_mayhemId_m77.xml''),
           (7, NoResources)], snd (main ex_run_config ex_net ex_parse [] Map.empty)) \<and>
   (6, Saved ''applicationUserId_6_mayhemId_m77.xml'') \<in> set [(5::int, Saved ''applicationUserId_5_mayhemId_m77.xml''),
      (6, Saved ''applicationUserId_6_mayhemId_m77.xml''), (7, NoResources)] \<and>
   index (snd (main ex_run_config ex_net ex_parse [] Map.empty)) (py_str_int 6) = Some ''applicationUserId_6_mayhemId_m77.xml'' \<and>
   ''applicationUserId_6_mayhemId_m77.xml'' \<in> dom (files (snd (main ex_run_config ex_net ex_parse [] Map.empty)))"
proof -
  have p: "0 < batch_size ex_run_config" by (simp add: main_eval)
  have m: "main ex_run_config ex_net ex_parse [] Map.empty =
     (Inr [(5, Saved ''applicationUserId_5_mayhemId_m77.xml''), (6, Saved ''applicationUserId_6_mayhemId_m77.xml''),
           (7, NoResources)], snd (main ex_run_config ex_net ex_parse [] Map.empty))"
    by (simp add: main_eval)
  have i: "(6::int, Saved ''applicationUserId_6_mayhemId_m77.xml'') \<in> set [(5::int, Saved ''applicationUserId_5_mayhemId_m77.xml''),
      (6, Saved ''applicationUserId_6_mayhemId_m77.xml''), (7, NoResources)]" by simp
  from p m i main_records_saved [OF p m i] show ?thesis by (intro conjI) simp_all
qed

text \<open>
  C17. Refinement of the batched driver by the specification "every id of the range
  is fetched once, independently": a completed run returns, for each id of
  \<open>[START_ID, END_ID]\<close> in order, the result its worker would have alone on the
  world after the startup scan. Neither the batching nor the workers run before it
  change any worker's result.
\<close>

theorem main_refines_isolated_workers:
  assumes "0 < batch_size c" and "main c net parse listing files0 = (Inr outs, w)"
  shows "map (\<lambda>(u, out). (u, Inr out)) outs =
         map (\<lambda>u. (u, fst (fetch_user_data c net parse u (max_retries c) (init_world listing files0))))
           [start_id c..end_id c]"
proof -
  from main_Inr [OF assms(2)] obtain bs where bs: "batch_ranges c = Some bs"
    and run: "run_batches c net parse bs (init_world listing files0) = (Inr outs, w)" by blast
  from run_batches_outcomes [OF run batch_ranges_distinct [OF assms(1) bs]] batch_ranges_cover [OF assms(1) bs]
  show ?thesis by simp
qed

theorem main_refines_isolated_workers_witness:
  "0 < batch_size ex_run_config \<and>
   main ex_run_config ex_net ex_parse [''applicationUserId_6_mayhemId_q.xml''] Map.empty =
     (Inr [(5, Saved ''applicationUserId_5_mayhemId_m77.xml''), (6, Skipped), (7, NoResources)],
      snd (main ex_run_config ex_net ex_parse [''applicationUserId_6_mayhemId_q.xml''] Map.empty)) \<and>
   map (\<lambda>u. (u, fst (fetch_user_data ex_run_config ex_net ex_parse u (max_retries ex_run_config)
                 (init_world [''applicationUserId_6_mayhemId_q.xml''] Map.empty)))) [5, 6, 7] =
     [(5, Inr (Saved ''applicationUserId_5_mayhemId_m77.xml'')), (6, Inr Skipped), (7, Inr NoResources)]"
proof -
  have p: "0 < batch_size ex_run_config" by (simp add: main_eval)
  have m: "main ex_run_config ex_net ex_parse [''applicationUserId_6_mayhemId_q.xml''] Map.empty =
     (Inr [(5, Saved ''applicationUserId_5_mayhemId_m77.xml''), (6, Skipped), (7, NoResources)],
      snd (main ex_run_config ex_net ex_parse [''applicationUserId_6_mayhemId_q.xml''] Map.empty))"
    by (simp add: main_eval)
  have e: "[start_id ex_run_config..end_id ex_run_config] = [5, 6, 7]" by (simp add: main_eval)
  from p m main_refines_isolated_workers [OF p m] e show ?thesis by (intro conjI) simp_all
qed

text \<open>
  C18. The order in which the workers of a batch run does not matter: two orders of
  the same distinct ids give the same outcomes per id and the same index. This is
  what allows the model to run the concurrently scheduled workers of
  \<open>asyncio.gather\<close> one after the other.
\<close>

theorem batch_order_irrelevant:
  assumes "distinct uids" and "distinct uids'" and "set uids' = set uids"
    and "run_workers c net parse uids w = (Inr outs, w1)"
    and "run_workers c net parse uids' w = (Inr outs', w2)"
  shows "set outs = set outs' \<and> index w1 = index w2"
proof
  let ?g = "\<lambda>(u::int, out::outcome). (u, Inr out :: exc + outcome)"
  let ?h = "\<lambda>u. (u, fst (fetch_user_data c net parse u (max_retries c) w))"
  have e1: "?g ` set outs = ?h ` set uids"
    using arg_cong [OF run_workers_outcomes [OF assms(4,1)], of set] by (simp only: set_map)
  have e2: "?g ` set outs' = ?h ` set uids'"
    using arg_cong [OF run_workers_outcomes [OF assms(5,2)], of set] by (simp only: set_map)
  have inj: "inj ?g" by (auto simp: inj_def)
  have "?g ` set outs = ?g ` set outs'" by (simp only: e1 e2 assms(3))
  then show "set outs = set outs'" by (simp only: inj_image_eq_iff [OF inj])
next
  show "index w1 = index w2"
  proof
    fix k
    show "index w1 k = index w2 k"
    proof (cases "k \<in> py_str_int ` set uids")
      case True
      then obtain u where u: "u \<in> set uids" and k: "k = py_str_int u" by blast
      have u': "u \<in> set uids'" using u assms(3) by simp
      show ?thesis
        using run_workers_index_at [OF assms(4,1) u] run_workers_index_at [OF assms(5,2) u'] k by simp
    next
      case False
      then have "k \<notin> py_str_int ` set uids'" using assms(3) by simp
      with False show ?thesis
        using run_workers_keeps_key [OF assms(4)] run_workers_keeps_key [OF assms(5)] by simp
    qed
  qed
qed

theorem batch_order_irrelevant_witness:
  "distinct [5::int, 6, 7] \<and> distinct [7::int, 6, 5] \<and> set [7::int, 6, 5] = set [5, 6, 7] \<and>
   run_workers ex_run_config ex_net ex_parse [5, 6, 7] (init_world [] Map.empty) =
     (Inr [(5, Saved ''applicationUserId_5_mayhemId_m77.xml''), (6, Saved ''applicationUserId_6_mayhemId_m77.xml''),
           (7, NoResources)], snd (run_workers ex_run_config ex_net ex_parse [5, 6, 7] (init_world [] Map.empty))) \<and>
   run_workers ex_run_config ex_net ex_parse [7, 6, 5] (init_world [] Map.empty) =
     (Inr [(7, NoResources), (6, Saved ''applicationUserId_6_mayhemId_m77.xml''),
           (5, Saved ''applicationUserId_5_mayhemId_m77.xml'')],
      snd (run_workers ex_run_config ex_net ex_parse [7, 6, 5] (init_world [] Map.empty))) \<and>
   index (snd (run_workers ex_run_config ex_net ex_parse [5, 6, 7] (init_world [] Map.empty))) =
   index (snd (run_workers ex_run_config ex_net ex_parse [7, 6, 5] (init_world [] Map.empty)))"
proof -
  have d1: "distinct [5::int, 6, 7]" and d2: "distinct [7::int, 6, 5]" and s: "set [7::int, 6, 5] = set [5, 6, 7]"
    by auto
  have r1: "run_workers ex_run_config ex_net ex_parse [5, 6, 7] (init_world [] Map.empty) =
     (Inr [(5, Saved ''applicationUserId_5_mayhemId_m77.xml''), (6, Saved ''applicationUserId_6_mayhemId_m77.xml''),
           (7, NoResources)], snd (run_workers ex_run_config ex_net ex_parse [5, 6, 7] (init_world [] Map.empty)))"
    by (simp add: main_eval)
  have r2: "run_workers ex_run_config ex_net ex_parse [7, 6, 5] (init_world [] Map.empty) =
     (Inr [(7, NoResources), (6, Saved ''applicationUserId_6_mayhemId_m77.xml''),
           (5, Saved ''applicationUserId_5_mayhemId_m77.xml'')],
      snd (run_workers ex_run_config ex_net ex_parse [7, 6, 5] (init_world [] Map.empty)))"
    by (simp add: main_eval)
  from batch_order_irrelevant [OF d1 d2 s r1 r2] d1 d2 s r1 r2 show ?thesis by (intro conjI) simp_all
qed

text \<open>
  C19. Saving and the startup scan are inverse: when a completed run saved a result
  for an id, a later run started on the resulting directory skips that id without a
  request, whatever the service then answers.
\<close>

theorem rerun_skips_saved:
  assumes "0 < batch_size c" and "main c net parse listing files0 = (Inr outs, w)"
    and "(uid, Saved f) \<in> set outs" and "set listing' = dom (files w)"
  shows "fetch_user_data c' net' parse' uid r (init_world listing' (files w)) =
           (Inr Skipped, emit (Print (LogSkip uid)) (init_world listing' (files w)))"
proof -
  from main_Inr [OF assms(2)] obtain bs where bs: "batch_ranges c = Some bs"
    and run: "run_batches c net parse bs (init_world listing files0) = (Inr outs, w)" by blast
  have "f \<in> dom (files w) \<and> file_key f = Some (py_str_int uid)"
    using run_batches_saved [OF run batch_ranges_distinct [OF assms(1) bs] assms(3)] by simp
  then have "f \<in> set listing'" and "file_key f = Some (py_str_int uid)" using assms(4) by auto
  then have "py_str_int uid \<in> dom (load_existing_files Map.empty listing')"
    by (rule load_existing_files_dom)
  then show ?thesis by (intro fetch_user_data_skip) (simp add: init_world_def)
qed

theorem rerun_skips_saved_witness:
  "0 < batch_size ex_run_config \<and>
   main ex_run_config ex_net ex_parse [] Map.empty =
     (Inr [(5, Saved ''applicationUserId_5_mayhemId_m77.xml''), (6, Saved ''applicationUserId_6_mayhemId_m77.xml''),
           (7, NoResources)], snd (main ex_run_config ex_net ex_parse [] Map.empty)) \<and>
   set [''applicationUserId_5_mayhemId_m77.xml'', ''applicationUserId_6_mayhemId_m77.xml''] =
     dom (files (snd (main ex_run_config ex_net ex_parse [] Map.empty))) \<and>
   fetch_user_data ex_run_config (\<lambda>_ _. ConnectorFailure) ex_parse 6 1000
     (init_world [''applicationUserId_5_mayhemId_m77.xml'', ''applicationUserId_6_mayhemId_m77.xml'']
        (files (snd (main ex_run_config ex_net ex_parse [] Map.empty)))) =
   (Inr Skipped, emit (Print (LogSkip 6)) (init_world [''applicationUserId_5_mayhemId_m77.xml'', ''applicationUserId_6_mayhemId_m77.xml'']
        (files (snd (main ex_run_config ex_net ex_parse [] Map.empty)))))"
proof -
  have p: "0 < batch_size ex_run_config" by (simp add: main_eval)
  have m: "main ex_run_config ex_net ex_parse [] Map.empty =
     (Inr [(5, Saved ''applicationUserId_5_mayhemId_m77.xml''), (6, Saved ''applicationUserId_6_mayhemId_m77.xml''),
           (7, NoResources)], snd (main ex_run_config ex_net ex_parse [] Map.empty))"
    by (simp add: main_eval)
  have i: "(6::int, Saved ''applicationUserId_6_mayhemId_m77.xml'') \<in> set [(5::int, Saved ''applicationUserId_5_mayhemId_m77.xml''),
      (6, Saved ''applicationUserId_6_mayhemId_m77.xml''), (7, NoResources)]" by simp
  have l: "set [''applicationUserId_5_mayhemId_m77.xml'', ''applicationUserId_6_mayhemId_m77.xml''] =
     dom (files (snd (main ex_run_config ex_net ex_parse [] Map.empty)))"
    by (simp add: main_eval) blast
  from p m l rerun_skips_saved [OF p m i l] show ?thesis by (intro conjI)
qed

text \<open>
  C20. The retry recursion ends: whatever the service answers, a call with
  \<open>retries = r\<close> issues at most \<open>r + 1\<close> requests (\<open>fetch_connector_attempts\<close>
  shows the bound is reached).
\<close>

theorem fetch_attempts_bounded:
  assumes "fetch_user_data c net parse uid r w = (res, w')"
  shows "\<exists>t. trace w' = trace w @ t \<and> requests t \<le> Suc r"
  using assms
proof (induction c net parse uid r w arbitrary: res w' rule: fetch_user_data.induct)
  case (1 c net parse uid r w)
  show ?case
  proof (cases "py_str_int uid \<in> dom (index w)")
    case True
    with "1.prems" show ?thesis
      by (intro exI [where x = "[Print (LogSkip uid)]"]) (auto simp: fetch_user_data_skip)
  next
    case False
    show ?thesis
    proof (cases "attempt c net parse uid r (emit Acquire w)")
      case (Done res0 w0)
      with False "1.prems" have w': "w' = emit Release w0" by (simp add: fetch_user_data_Done)
      obtain p where p: "trace w0 = trace w @ Acquire # p" "filter is_request p = [Get uid]"
        using attempt_trace [of c net parse uid r "emit Acquire w" res0 w0] Done by auto
      with w' show ?thesis
        by (intro exI [where x = "Acquire # p @ [Release]"]) (simp add: requests_def)
    next
      case (Retry w0)
      have pos: "0 < r" by (rule attempt_Retry_pos [OF Retry])
      let ?d = "2 ^ (max_retries c - r)"
      obtain res1 w1 where rec: "fetch_user_data c net parse uid (r - 1) (emit (Sleep ?d) w0) = (res1, w1)"
        by fastforce
      with False Retry "1.prems" have w': "w' = emit Release w1" by (simp add: fetch_user_data_Retry)
      obtain p where p: "trace w0 = trace w @ Acquire # p" "filter is_request p = [Get uid]"
        using attempt_trace [of c net parse uid r "emit Acquire w" _ w0] Retry by auto
      have "\<exists>t. trace w1 = trace (emit (Sleep ?d) w0) @ t \<and> requests t \<le> Suc (r - 1)"
        by (rule "1.IH" [OF False Retry rec])
      then obtain t where t: "trace w1 = trace w0 @ [Sleep ?d] @ t" "requests t \<le> r"
        using pos by auto
      with w' p show ?thesis
        by (intro exI [where x = "Acquire # p @ Sleep ?d # t @ [Release]"]) (simp add: requests_def)
    qed
  qed
qed

theorem fetch_attempts_bounded_witness:
  "fetch_user_data small_config ex_net ex_parse 5 2 \<lparr>index = Map.empty, files = Map.empty, trace = []\<rparr> =
     (fst (fetch_user_data small_config ex_net ex_parse 5 2 \<lparr>index = Map.empty, files = Map.empty, trace = []\<rparr>),
      snd (fetch_user_data small_config ex_net ex_parse 5 2 \<lparr>index = Map.empty, files = Map.empty, trace = []\<rparr>)) \<and>
   (\<exists>t. trace (snd (fetch_user_data small_config ex_net ex_parse 5 2 \<lparr>index = Map.empty, files = Map.empty, trace = []\<rparr>)) = [] @ t
        \<and> requests t \<le> 3) \<and>
   requests (trace (snd (fetch_user_data small_config ex_net ex_parse 5 2 \<lparr>index = Map.empty, files = Map.empty, trace = []\<rparr>))) = 2"
proof -
  have b: "\<exists>t. trace (snd (fetch_user_data small_config ex_net ex_parse 5 2 \<lparr>index = Map.empty, files = Map.empty, trace = []\<rparr>)) =
             trace \<lparr>index = Map.empty, files = Map.empty, trace = []\<rparr> @ t \<and> requests t \<le> Suc 2"
    by (rule fetch_attempts_bounded [OF prod.collapse [symmetric]])
  have r: "requests (trace (snd (fetch_user_data small_config ex_net ex_parse 5 2 \<lparr>index = Map.empty, files = Map.empty, trace = []\<rparr>))) = 2"
    by (simp add: fetch_eval requests_def)
  from b r show ?thesis by simp
qed

end
