(* ===== verification/RangeUpdate.thy ===== *)
theory RangeUpdate
  imports Prelude
begin

text \<open>
  \<open>src/update.py\<close>: the script run between two scraping runs. It reads the main
  script as lines, replaces the line \<open>START_ID = n\<close> by \<open>START_ID = n + 1000000\<close>
  and the line \<open>END_ID = m\<close> by \<open>END_ID = min(m + 1000000, 1001000000)\<close>
  (printing a notice when it caps), writes the lines back and prints the new values.
  The file and standard output are an explicit \<open>upd_world\<close>; an exception is an
  \<open>Inl\<close> value, raised in the world as it is at that point (the file is written
  before the last print, so a \<open>NameError\<close> there leaves the file rewritten).
  Opening a missing file is not modelled: the script's content is given.
\<close>

section \<open>Constants (lines 2--4)\<close>

definition main_script_path :: string where
  "main_script_path = ''/home/runner/work/tsto-mayhemids/tsto-mayhemids/grab_mayhemids.py''"

definition increment :: int where
  "increment = 1000000"

definition max_end_id :: int where
  "max_end_id = 1001000000"

section \<open>State\<close>

text \<open>Exceptions the script can raise.\<close>

datatype upd_error = UpdValueError | UpdIndexError | UpdNameError

text \<open>The variables of the loop of lines 11--26.\<close>

record upd_state =
  file_lines :: "string list"
  new_start :: "int option"
  new_end :: "int option"
  printed :: "string list"

text \<open>The script file and standard output.\<close>

record upd_world =
  script :: string
  stdout :: "string list"

section \<open>The loop body\<close>

definition is_start_line :: "string \<Rightarrow> bool" where
  "is_start_line line \<longleftrightarrow> py_startswith (py_strip line) ''START_ID =''"

definition is_end_line :: "string \<Rightarrow> bool" where
  "is_end_line line \<longleftrightarrow> py_startswith (py_strip line) ''END_ID =''"

text \<open>Lines 14 and 20: \<open>int(line.split("=")[1].strip())\<close>.\<close>

definition line_value :: "string \<Rightarrow> upd_error + int" where
  "line_value line =
     (case py_index (py_split (CHR ''='') line) 1 of
        None \<Rightarrow> Inl UpdIndexError
      | Some v \<Rightarrow> (case py_int (py_strip v) of None \<Rightarrow> Inl UpdValueError | Some n \<Rightarrow> Inr n))"

text \<open>The lines the script writes (lines 16 and 26).\<close>

definition start_line :: "int \<Rightarrow> string" where
  "start_line n = ''START_ID = '' @ py_str_int n @ [nl]"

definition end_line :: "int \<Rightarrow> string" where
  "end_line n = ''END_ID = '' @ py_str_int n @ [nl]"

definition cap_notice :: string where
  "cap_notice = ''END_ID has reached or exceeded the maximum limit.''"

text \<open>Lines 12--16.\<close>

definition upd_start :: "nat \<Rightarrow> string \<Rightarrow> upd_state \<Rightarrow> (upd_error + unit) \<times> upd_state" where
  "upd_start i line st =
     (if is_start_line line then
        (case line_value line of
           Inl e \<Rightarrow> (Inl e, st)
         | Inr cur \<Rightarrow>
             let n = cur + increment
             in (Inr (), st\<lparr>file_lines := (file_lines st)[i := start_line n], new_start := Some n\<rparr>))
      else (Inr (), st))"

text \<open>Lines 18--26.\<close>

definition upd_end :: "nat \<Rightarrow> string \<Rightarrow> upd_state \<Rightarrow> (upd_error + unit) \<times> upd_state" where
  "upd_end i line st =
     (if is_end_line line then
        (case line_value line of
           Inl e \<Rightarrow> (Inl e, st)
         | Inr cur \<Rightarrow>
             let n = cur + increment;
                 st1 = (if max_end_id < n then st\<lparr>printed := printed st @ [cap_notice]\<rparr> else st);
                 n' = (if max_end_id < n then max_end_id else n)
             in (Inr (), st1\<lparr>file_lines := (file_lines st1)[i := end_line n'], new_end := Some n'\<rparr>))
      else (Inr (), st))"

text \<open>
  Lines 11--26: \<open>for i, line in enumerate(lines)\<close>. Assigning \<open>lines[i]\<close> only
  changes the element already visited, so the loop sees the lines as read.
\<close>

fun upd_loop :: "(nat \<times> string) list \<Rightarrow> upd_state \<Rightarrow> (upd_error + unit) \<times> upd_state" where
  "upd_loop [] st = (Inr (), st)"
| "upd_loop ((i, line) # rest) st =
     (case upd_start i line st of
        (Inl e, st1) \<Rightarrow> (Inl e, st1)
      | (Inr _, st1) \<Rightarrow>
          (case upd_end i line st1 of
             (Inl e, st2) \<Rightarrow> (Inl e, st2)
           | (Inr _, st2) \<Rightarrow> upd_loop rest st2))"

text \<open>Line 32.\<close>

definition final_notice :: "int \<Rightarrow> int \<Rightarrow> string" where
  "final_notice s e =
     ''Updated START_ID to '' @ py_str_int s @ '' and END_ID to '' @ py_str_int e @ '' in '' @ main_script_path"

text \<open>
  The whole script: read (lines 7--8), the loop, write (lines 29--30), print
  (line 32), where an unset \<open>new_start_id\<close> or \<open>new_end_id\<close> raises \<open>NameError\<close>.
\<close>

definition update_script :: "upd_world \<Rightarrow> (upd_error + unit) \<times> upd_world" where
  "update_script w =
     (let ls = py_readlines (script w);
          (r, st) = upd_loop (enumerate 0 ls)
                      \<lparr>file_lines = ls, new_start = None, new_end = None, printed = []\<rparr>
      in case r of
           Inl e \<Rightarrow> (Inl e, w\<lparr>stdout := stdout w @ printed st\<rparr>)
         | Inr _ \<Rightarrow>
             let w1 = w\<lparr>script := concat (file_lines st), stdout := stdout w @ printed st\<rparr>
             in (case (new_start st, new_end st) of
                   (Some s, Some e) \<Rightarrow> (Inr (), w1\<lparr>stdout := stdout w1 @ [final_notice s e]\<rparr>)
                 | _ \<Rightarrow> (Inl UpdNameError, w1)))"

section \<open>The lines the script writes read back\<close>

lemma py_str_int_chars: "ch \<in> set (py_str_int n) \<Longrightarrow> is_digit ch \<or> ch = CHR ''-''"
  using nat_str_digits [of "nat n"] nat_str_digits [of "nat (- n)"]
  by (auto simp: py_str_int_def list_all_iff split: if_splits)

lemma py_str_int_not_Nil [simp]: "py_str_int n \<noteq> []"
  by (simp add: py_str_int_def)

lemma py_str_int_char_not_space: "ch \<in> set (py_str_int n) \<Longrightarrow> \<not> py_isspace ch \<and> ch \<noteq> CHR ''='' \<and> ch \<noteq> nl"
  by (drule py_str_int_chars) (auto simp: is_digit_def py_isspace_def)

lemma py_str_int_last: "\<not> py_isspace (last (py_str_int n))"
  using py_str_int_char_not_space [of "last (py_str_int n)" n] by simp

lemma py_strip_inner:
  assumes "s \<noteq> []" and "\<not> py_isspace (hd s)" and "\<not> py_isspace (last s)"
    and "list_all py_isspace a" and "list_all py_isspace b"
  shows "py_strip (a @ s @ b) = s"
proof -
  have "dropWhile py_isspace (a @ s @ b) = s @ b"
    using assms(1,2,4) by (cases s) (simp_all add: dropWhile_append2 list_all_iff)
  moreover have "dropWhile py_isspace (rev (s @ b)) = rev s"
  proof -
    have "rev (s @ b) = rev b @ rev s" by simp
    moreover have "dropWhile py_isspace (rev s) = rev s"
      using assms(1,3) by (cases "rev s") (auto simp: last_rev [symmetric] hd_rev)
    moreover have "dropWhile py_isspace (rev b @ rev s) = dropWhile py_isspace (rev s)"
      by (rule dropWhile_append2) (use assms(5) in \<open>simp add: list_all_iff\<close>)
    ultimately show ?thesis by simp
  qed
  ultimately show ?thesis by (simp add: py_strip_def)
qed

lemma line_prefix_strip:
  "py_strip (p @ py_str_int n @ [nl]) = p @ py_str_int n"
  if "p \<noteq> []" "\<not> py_isspace (hd p)"
  using py_strip_inner [of "p @ py_str_int n" "[]" "[nl]"] that py_str_int_last
  by (simp add: py_isspace_def)

lemma start_line_facts:
  "is_start_line (start_line n) \<and> \<not> is_end_line (start_line n) \<and> line_value (start_line n) = Inr n"
proof -
  have st: "py_strip (start_line n) = ''START_ID = '' @ py_str_int n"
    unfolding start_line_def by (rule line_prefix_strip) (simp_all add: py_isspace_def)
  have eq: "CHR ''='' \<notin> set ('' '' @ py_str_int n @ [nl])" using py_str_int_char_not_space [of _ n] by auto
  have "py_split (CHR ''='') (start_line n) = [''START_ID '', '' '' @ py_str_int n @ [nl]]"
    using py_split_append_sep [of "CHR ''=''" "''START_ID ''" "'' '' @ py_str_int n @ [nl]"] eq
    by (simp add: start_line_def py_split_no_sep)
  moreover have "py_strip ('' '' @ py_str_int n @ [nl]) = py_str_int n"
    using py_strip_inner [of "py_str_int n" "'' ''" "[nl]"] py_str_int_char_not_space [of "hd (py_str_int n)" n]
      py_str_int_last by (simp add: py_isspace_def)
  ultimately have "line_value (start_line n) = Inr n"
    by (simp add: line_value_def py_index_one py_int_py_str_int)
  with st show ?thesis by (simp add: is_start_line_def is_end_line_def py_startswith_def)
qed

lemma end_line_facts:
  "is_end_line (end_line n) \<and> \<not> is_start_line (end_line n) \<and> line_value (end_line n) = Inr n"
proof -
  have st: "py_strip (end_line n) = ''END_ID = '' @ py_str_int n"
    unfolding end_line_def by (rule line_prefix_strip) (simp_all add: py_isspace_def)
  have eq: "CHR ''='' \<notin> set ('' '' @ py_str_int n @ [nl])" using py_str_int_char_not_space [of _ n] by auto
  have "py_split (CHR ''='') (end_line n) = [''END_ID '', '' '' @ py_str_int n @ [nl]]"
    using py_split_append_sep [of "CHR ''=''" "''END_ID ''" "'' '' @ py_str_int n @ [nl]"] eq
    by (simp add: end_line_def py_split_no_sep)
  moreover have "py_strip ('' '' @ py_str_int n @ [nl]) = py_str_int n"
    using py_strip_inner [of "py_str_int n" "'' ''" "[nl]"] py_str_int_char_not_space [of "hd (py_str_int n)" n]
      py_str_int_last by (simp add: py_isspace_def)
  ultimately have "line_value (end_line n) = Inr n"
    by (simp add: line_value_def py_index_one py_int_py_str_int)
  with st show ?thesis by (simp add: is_start_line_def is_end_line_def py_startswith_def)
qed

lemma start_not_end: "is_start_line l \<Longrightarrow> \<not> is_end_line l"
proof
  assume "is_start_line l" and "is_end_line l"
  then have a: "take (length ''START_ID ='') (py_strip l) = ''START_ID =''"
    and b: "take (length ''END_ID ='') (py_strip l) = ''END_ID =''"
    by (simp_all only: is_start_line_def is_end_line_def py_startswith_def)
  have "take 1 (take (length ''START_ID ='') (py_strip l)) = take 1 (take (length ''END_ID ='') (py_strip l))"
    by simp
  then show False by (simp only: a b) simp
qed

lemma line_value_not_index:
  assumes "is_start_line l \<or> is_end_line l"
  shows "line_value l \<noteq> Inl UpdIndexError"
proof -
  have "CHR ''='' \<in> set (py_strip l)"
    using assms by (auto simp: is_start_line_def is_end_line_def py_startswith_def dest!: arg_cong [where f = set]
                         dest: in_set_takeD)
  moreover have "set (py_strip l) \<subseteq> set l"
    by (auto simp: py_strip_def dest!: set_dropWhileD)
  ultimately have "CHR ''='' \<in> set l" by blast
  then obtain a b where l: "l = a @ CHR ''='' # b" and "CHR ''='' \<notin> set a" by (metis split_list_first)
  then have "py_split (CHR ''='') l = a # py_split (CHR ''='') b" by (simp add: py_split_append_sep)
  then show ?thesis by (cases "py_split (CHR ''='') b") (auto simp: line_value_def py_index_one split: option.split)
qed

section \<open>The loop\<close>

lemma upd_loop_append:
  "upd_loop (xs @ ys) st =
     (case upd_loop xs st of (Inl e, st') \<Rightarrow> (Inl e, st') | (Inr _, st') \<Rightarrow> upd_loop ys st')"
proof (induction xs arbitrary: st)
  case Nil
  then show ?case by simp
next
  case (Cons x xs)
  obtain i l where x: "x = (i, l)" by fastforce
  show ?case using Cons.IH by (simp add: x split: prod.split sum.split)
qed

lemma upd_loop_other:
  "\<forall>l \<in> snd ` set xs. \<not> is_start_line l \<and> \<not> is_end_line l \<Longrightarrow> upd_loop xs st = (Inr (), st)"
  by (induction xs arbitrary: st) (auto simp: upd_start_def upd_end_def)

lemma upd_loop_start:
  "is_start_line l \<Longrightarrow> line_value l = Inr cur \<Longrightarrow>
   upd_loop ((i, l) # rest) st =
     upd_loop rest (st\<lparr>file_lines := (file_lines st)[i := start_line (cur + increment)],
                        new_start := Some (cur + increment)\<rparr>)"
  by (simp add: upd_start_def upd_end_def start_not_end Let_def)

lemma upd_loop_end:
  "is_end_line l \<Longrightarrow> line_value l = Inr cur \<Longrightarrow>
   upd_loop ((i, l) # rest) st =
     upd_loop rest (st\<lparr>printed := printed st @ (if max_end_id < cur + increment then [cap_notice] else []),
                        file_lines := (file_lines st)[i := end_line (min (cur + increment) max_end_id)],
                        new_end := Some (min (cur + increment) max_end_id)\<rparr>)"
proof -
  assume e: "is_end_line l" and v: "line_value l = Inr cur"
  have "\<not> is_start_line l" using e start_not_end by blast
  with e v show ?thesis by (simp add: upd_start_def upd_end_def Let_def min_def)
qed

lemma upd_loop_raise:
  "is_start_line l \<or> is_end_line l \<Longrightarrow> \<forall>n. line_value l \<noteq> Inr n \<Longrightarrow>
   upd_loop ((i, l) # rest) st = (Inl UpdValueError, st)"
proof -
  assume m: "is_start_line l \<or> is_end_line l" and nv: "\<forall>n. line_value l \<noteq> Inr n"
  have "line_value l \<noteq> Inl UpdNameError" by (simp add: line_value_def split: option.split)
  have "line_value l = Inl UpdValueError"
  proof (cases "line_value l")
    case (Inl a)
    with line_value_not_index [OF m] \<open>line_value l \<noteq> Inl UpdNameError\<close> show ?thesis by (cases a) simp_all
  next
    case (Inr n)
    with nv show ?thesis by simp
  qed
  with m start_not_end show ?thesis by (auto simp: upd_start_def upd_end_def)
qed

lemma upd_loop_valid:
  "\<forall>l \<in> set xs. is_start_line l \<or> is_end_line l \<longrightarrow> (\<exists>n. line_value l = Inr n) \<Longrightarrow>
   \<exists>st' k. upd_loop (enumerate n xs) st = (Inr (), st') \<and>
     printed st' = printed st @ replicate k cap_notice \<and> k \<le> length (filter is_end_line xs)"
proof (induction xs arbitrary: n st)
  case Nil
  show ?case by (rule exI [of _ st], rule exI [of _ 0]) simp
next
  case (Cons l xs)
  have IH: "\<exists>st' k. upd_loop (enumerate (Suc n) xs) st1 = (Inr (), st') \<and>
      printed st' = printed st1 @ replicate k cap_notice \<and> k \<le> length (filter is_end_line xs)" for st1
    using Cons by simp
  consider (s) "is_start_line l" | (e) "is_end_line l" | (o) "\<not> is_start_line l" "\<not> is_end_line l" by blast
  then show ?case
  proof cases
    case s
    then obtain cur where v: "line_value l = Inr cur" using Cons.prems by auto
    obtain st' k where r: "upd_loop (enumerate (Suc n) xs)
        (st\<lparr>file_lines := (file_lines st)[n := start_line (cur + increment)],
            new_start := Some (cur + increment)\<rparr>) = (Inr (), st')"
      and p: "printed st' = printed st @ replicate k cap_notice" and k: "k \<le> length (filter is_end_line xs)"
      using IH by fastforce
    have "\<not> is_end_line l" using s start_not_end by blast
    with k have "k \<le> length (filter is_end_line (l # xs))" by simp
    with r p show ?thesis by (simp del: upd_loop.simps add: upd_loop_start [OF s v])
  next
    case e
    then obtain cur where v: "line_value l = Inr cur" using Cons.prems by auto
    let ?c = "if max_end_id < cur + increment then [cap_notice] else []"
    obtain st' k where r: "upd_loop (enumerate (Suc n) xs)
        (st\<lparr>printed := printed st @ ?c,
            file_lines := (file_lines st)[n := end_line (min (cur + increment) max_end_id)],
            new_end := Some (min (cur + increment) max_end_id)\<rparr>) = (Inr (), st')"
      and p: "printed st' = (printed st @ ?c) @ replicate k cap_notice" and k: "k \<le> length (filter is_end_line xs)"
      using IH by fastforce
    have c: "?c @ replicate k cap_notice = replicate (length ?c + k) cap_notice" by simp
    have "length ?c + k \<le> length (filter is_end_line (l # xs))" using k e by simp
    with r p c show ?thesis by (simp del: upd_loop.simps add: upd_loop_end [OF e v])
  next
    case o
    obtain st' k where r: "upd_loop (enumerate (Suc n) xs) st = (Inr (), st')"
      and p: "printed st' = printed st @ replicate k cap_notice" and k: "k \<le> length (filter is_end_line xs)"
      using IH by fastforce
    have "k \<le> length (filter is_end_line (l # xs))" using k by simp
    with r p o show ?thesis by (simp add: upd_start_def upd_end_def)
  qed
qed

lemma enumerate_snd: "snd ` set (enumerate n xs) = set xs"
proof -
  have "map snd (enumerate n xs) = xs" by (induction xs arbitrary: n) simp_all
  then show ?thesis by (metis set_map)
qed

section \<open>The written file is again a file of lines\<close>

definition good_line :: "string \<Rightarrow> bool" where
  "good_line l \<longleftrightarrow> l \<noteq> [] \<and> nl \<notin> set (butlast l) \<and> last l = nl"

lemma good_start_line: "good_line (start_line n)" and good_end_line: "good_line (end_line n)"
  using py_str_int_char_not_space [of nl n]
  by (auto simp: good_line_def start_line_def end_line_def butlast_append)

lemma lines_wf_update: "lines_wf ls \<Longrightarrow> good_line l \<Longrightarrow> lines_wf (ls[i := l])"
proof -
  assume wf: "lines_wf ls" and g: "good_line l"
  have "set (ls[i := l]) \<subseteq> insert l (set ls)" by (rule set_update_subset_insert)
  moreover have "set (butlast (ls[i := l])) \<subseteq> insert l (set (butlast ls))"
    using set_update_subset_insert [of "butlast ls" i l] by (auto simp: butlast_list_update)
  ultimately show ?thesis using wf g by (auto simp: lines_wf_def good_line_def)
qed

lemma upd_loop_lines:
  "upd_loop xs st = (r, st') \<Longrightarrow> lines_wf (file_lines st) \<Longrightarrow>
   lines_wf (file_lines st') \<and> length (file_lines st') = length (file_lines st)"
proof (induction xs arbitrary: st)
  case Nil
  then show ?case by simp
next
  case (Cons x xs)
  obtain i l where x: "x = (i, l)" by fastforce
  obtain r1 st1 where s1: "upd_start i l st = (r1, st1)" by fastforce
  obtain r2 st2 where s2: "upd_end i l st1 = (r2, st2)" by fastforce
  have w1: "lines_wf (file_lines st1) \<and> length (file_lines st1) = length (file_lines st)"
    using s1 Cons.prems(2) by (auto simp: upd_start_def Let_def lines_wf_update good_start_line split: if_splits sum.splits)
  have w2: "lines_wf (file_lines st2) \<and> length (file_lines st2) = length (file_lines st1)"
    using s2 w1 by (auto simp: upd_end_def Let_def lines_wf_update good_end_line split: if_splits sum.splits)
  show ?case
  proof (cases r1)
    case Inl
    with Cons.prems(1) x s1 w1 show ?thesis by simp
  next
    case Inr
    show ?thesis
    proof (cases r2)
      case Inl
      with Cons.prems(1) x s1 s2 Inr w2 w1 show ?thesis by simp
    next
      case Inr2: Inr
      with Cons.prems(1) x s1 s2 Inr have "upd_loop xs st2 = (r, st')" by simp
      from Cons.IH [OF this] w1 w2 show ?thesis by simp
    qed
  qed
qed

section \<open>A file with one START and one END line\<close>

lemma upd_loop_range:
  assumes "is_start_line ls" and "line_value ls = Inr s" and "is_end_line le" and "line_value le = Inr e"
    and "\<forall>l \<in> set (pre @ mid @ post). \<not> is_start_line l \<and> \<not> is_end_line l"
  shows "upd_loop (enumerate 0 (pre @ [ls] @ mid @ [le] @ post))
           \<lparr>file_lines = pre @ [ls] @ mid @ [le] @ post, new_start = None, new_end = None, printed = []\<rparr> =
         (Inr (), \<lparr>file_lines = pre @ [start_line (s + increment)] @ mid @ [end_line (min (e + increment) max_end_id)] @ post,
                   new_start = Some (s + increment), new_end = Some (min (e + increment) max_end_id),
                   printed = (if max_end_id < e + increment then [cap_notice] else [])\<rparr>)"
proof -
  have en: "enumerate 0 (pre @ [ls] @ mid @ [le] @ post) =
      enumerate 0 pre @ [(length pre, ls)] @ enumerate (Suc (length pre)) mid @
      [(Suc (length pre + length mid), le)] @ enumerate (Suc (Suc (length pre + length mid))) post"
    by (simp add: enumerate_append_eq)
  have o: "upd_loop (enumerate n xs) st = (Inr (), st)" if "set xs \<subseteq> set (pre @ mid @ post)" for n xs st
    using assms(5) that by (intro upd_loop_other) (auto simp: enumerate_snd)
  have o1: "upd_loop (enumerate n pre) st = (Inr (), st)" for n st by (rule o) auto
  have o2: "upd_loop (enumerate n mid) st = (Inr (), st)" for n st by (rule o) auto
  have o3: "upd_loop (enumerate n post) st = (Inr (), st)" for n st by (rule o) auto
  show ?thesis unfolding en
    by (simp del: upd_loop.simps add: upd_loop_append o1 o2 o3 upd_loop_start [OF assms(1,2)] upd_loop_end [OF assms(3,4)]
        list_update_append)
qed

lemma update_script_Inr:
  "upd_loop (enumerate 0 (py_readlines (script w)))
     \<lparr>file_lines = py_readlines (script w), new_start = None, new_end = None, printed = []\<rparr> = (Inr (), st) \<Longrightarrow>
   new_start st = Some s \<Longrightarrow> new_end st = Some e \<Longrightarrow>
   update_script w = (Inr (), w\<lparr>script := concat (file_lines st), stdout := stdout w @ printed st @ [final_notice s e]\<rparr>)"
  by (simp add: update_script_def)

section \<open>Fixtures for the witnesses\<close>

text \<open>
  The script as the repository ships it, reduced to an unrelated line and the two
  constants: \<open>START_ID = END_ID = 9816000000\<close>.
\<close>

definition ex_script :: upd_world where
  "ex_script = \<lparr>script = ''x = 1'' @ [nl] @ start_line 9816000000 @ end_line 9816000000, stdout = []\<rparr>"

lemmas upd_eval = update_script_def upd_start_def upd_end_def start_line_def end_line_def is_start_line_def
  is_end_line_def line_value_def py_strip_def py_isspace_def py_startswith_def py_int_def py_int_digits_def
  increment_def max_end_id_def py_index_def py_str_int_def nat_str.simps digit_char_def char_of_def bit_0
  is_digit_def digits_val_def Let_def sublist_Cons_right ex_script_def

lemma ex_script_lines:
  "py_readlines (script ex_script) = [''x = 1'' @ [nl]] @ [start_line 9816000000] @ [] @ [end_line 9816000000] @ []"
  by (simp add: ex_script_def start_line_def end_line_def py_str_int_def nat_str.simps digit_char_def char_of_def bit_0)

lemma ex_script_other: "\<forall>l \<in> set ([''x = 1'' @ [nl]] @ [] @ []). \<not> is_start_line l \<and> \<not> is_end_line l"
  by (simp add: upd_eval)

section \<open>Properties of the update\<close>

text \<open>
  C21. On a file with one \<open>START_ID\<close> line holding \<open>s\<close> and a later \<open>END_ID\<close>
  line holding \<open>e\<close>, the update writes the same lines with \<open>START_ID = s + 1000000\<close>
  and \<open>END_ID = min(e + 1000000, 1001000000)\<close>, prints the notice when it caps, and
  prints the new values.
\<close>

theorem update_rewrites_range:
  assumes "py_readlines (script w) = pre @ [ls] @ mid @ [le] @ post"
    and "is_start_line ls" and "line_value ls = Inr s" and "is_end_line le" and "line_value le = Inr e"
    and "\<forall>l \<in> set (pre @ mid @ post). \<not> is_start_line l \<and> \<not> is_end_line l"
  shows "update_script w =
           (Inr (), w\<lparr>script := concat (pre @ [start_line (s + increment)] @ mid @
                                       [end_line (min (e + increment) max_end_id)] @ post),
                      stdout := stdout w @ (if max_end_id < e + increment then [cap_notice] else []) @
                                [final_notice (s + increment) (min (e + increment) max_end_id)]\<rparr>)"
  using update_script_Inr [OF upd_loop_range [OF assms(2-6), folded assms(1)]] by simp

theorem update_rewrites_range_witness:
  "py_readlines (script ex_script) = [''x = 1'' @ [nl]] @ [start_line 9816000000] @ [] @ [end_line 9816000000] @ [] \<and>
   update_script ex_script =
     (Inr (), \<lparr>script = ''x = 1'' @ [nl] @ start_line 9817000000 @ end_line 1001000000,
               stdout = [cap_notice, final_notice 9817000000 1001000000]\<rparr>)"
proof -
  have s: "is_start_line (start_line 9816000000) \<and> line_value (start_line 9816000000) = Inr 9816000000"
    and e: "is_end_line (end_line 9816000000) \<and> line_value (end_line 9816000000) = Inr 9816000000"
    using start_line_facts end_line_facts by simp_all
  show ?thesis
    using update_rewrites_range [OF ex_script_lines, of 9816000000 9816000000] s e ex_script_other ex_script_lines
    by (simp add: ex_script_def increment_def max_end_id_def)
qed

text \<open>
  C22. What the update writes, the next update reads back: run twice on such a file,
  it advances \<open>START_ID\<close> by \<open>2000000\<close> and \<open>END_ID\<close> to
  \<open>min(e + 2000000, 1001000000)\<close>, the other lines unchanged.
\<close>

theorem update_twice:
  assumes "py_readlines (script w) = pre @ [ls] @ mid @ [le] @ post"
    and "is_start_line ls" and "line_value ls = Inr s" and "is_end_line le" and "line_value le = Inr e"
    and "\<forall>l \<in> set (pre @ mid @ post). \<not> is_start_line l \<and> \<not> is_end_line l"
  shows "fst (update_script w) = Inr () \<and> fst (update_script (snd (update_script w))) = Inr () \<and>
         script (snd (update_script (snd (update_script w)))) =
           concat (pre @ [start_line (s + 2 * increment)] @ mid @ [end_line (min (e + 2 * increment) max_end_id)] @ post)"
proof -
  let ?s1 = "s + increment" and ?e1 = "min (e + increment) max_end_id"
  let ?L1 = "pre @ [start_line ?s1] @ mid @ [end_line ?e1] @ post"
  obtain w1 where u1: "update_script w = (Inr (), w1)" and sc1: "script w1 = concat ?L1"
    using update_script_Inr [OF upd_loop_range [OF assms(2-6), folded assms(1)]] by simp
  have "lines_wf (pre @ [ls] @ mid @ [le] @ post)" using lines_wf_py_readlines [of "script w"] assms(1) by simp
  then have "lines_wf ((((pre @ [ls] @ mid @ [le] @ post)[length pre := start_line ?s1]))[Suc (length pre + length mid) := end_line ?e1])"
    by (intro lines_wf_update good_start_line good_end_line)
  then have "lines_wf ?L1" by (simp add: list_update_append)
  then have r1: "py_readlines (script w1) = ?L1" using py_readlines_concat [of ?L1] sc1 by simp
  have "update_script w1 = (Inr (), w1\<lparr>script := concat (pre @ [start_line (?s1 + increment)] @ mid @
                                       [end_line (min (?e1 + increment) max_end_id)] @ post),
                      stdout := stdout w1 @ (if max_end_id < ?e1 + increment then [cap_notice] else []) @
                                [final_notice (?s1 + increment) (min (?e1 + increment) max_end_id)]\<rparr>)"
  proof -
    have fs: "is_start_line (start_line ?s1)" "line_value (start_line ?s1) = Inr ?s1"
      using start_line_facts [of ?s1] by simp_all
    have fe: "is_end_line (end_line ?e1)" "line_value (end_line ?e1) = Inr ?e1"
      using end_line_facts [of ?e1] by simp_all
    show ?thesis using update_script_Inr [OF upd_loop_range [OF fs fe assms(6), folded r1]] by simp
  qed
  moreover have "min (?e1 + increment) max_end_id = min (e + 2 * increment) max_end_id"
    by (simp add: min_def increment_def max_end_id_def)
  moreover have "?s1 + increment = s + 2 * increment" by simp
  ultimately show ?thesis using u1 by simp
qed

theorem update_twice_witness:
  "py_readlines (script ex_script) = [''x = 1'' @ [nl]] @ [start_line 9816000000] @ [] @ [end_line 9816000000] @ [] \<and>
   script (snd (update_script (snd (update_script ex_script)))) =
     ''x = 1'' @ [nl] @ start_line 9818000000 @ end_line 1001000000"
proof -
  have s: "is_start_line (start_line 9816000000) \<and> line_value (start_line 9816000000) = Inr 9816000000"
    and e: "is_end_line (end_line 9816000000) \<and> line_value (end_line 9816000000) = Inr 9816000000"
    using start_line_facts end_line_facts by simp_all
  show ?thesis
    using update_twice [OF ex_script_lines, of 9816000000 9816000000] s e ex_script_other ex_script_lines
    by (simp add: increment_def max_end_id_def)
qed

text \<open>
  C23. A file with a \<open>START_ID\<close> line and no \<open>END_ID\<close> line is rewritten with the
  new \<open>START_ID\<close>, and then the final print raises \<open>NameError\<close>: the script fails
  after it has changed the file.
\<close>

theorem update_missing_end:
  assumes "py_readlines (script w) = pre @ [ls] @ post"
    and "is_start_line ls" and "line_value ls = Inr s"
    and "\<forall>l \<in> set (pre @ post). \<not> is_start_line l \<and> \<not> is_end_line l"
  shows "update_script w = (Inl UpdNameError, w\<lparr>script := concat (pre @ [start_line (s + increment)] @ post)\<rparr>)"
proof -
  have en: "enumerate 0 (pre @ [ls] @ post) =
      enumerate 0 pre @ [(length pre, ls)] @ enumerate (Suc (length pre)) post"
    by (simp add: enumerate_append_eq)
  have o1: "upd_loop (enumerate n pre) st = (Inr (), st)" for n st
    using assms(4) by (intro upd_loop_other) (auto simp: enumerate_snd)
  have o2: "upd_loop (enumerate n post) st = (Inr (), st)" for n st
    using assms(4) by (intro upd_loop_other) (auto simp: enumerate_snd)
  have "upd_loop (enumerate 0 (pre @ [ls] @ post))
          \<lparr>file_lines = pre @ [ls] @ post, new_start = None, new_end = None, printed = []\<rparr> =
        (Inr (), \<lparr>file_lines = pre @ [start_line (s + increment)] @ post, new_start = Some (s + increment),
                  new_end = None, printed = []\<rparr>)"
    unfolding en
    by (simp del: upd_loop.simps add: upd_loop_append o1 o2 upd_loop_start [OF assms(2,3)] list_update_append)
  then show ?thesis using assms(1) by (simp add: update_script_def)
qed

theorem update_missing_end_witness:
  "py_readlines (''x = 1'' @ [nl] @ start_line 5) = [''x = 1'' @ [nl]] @ [start_line 5] @ [] \<and>
   update_script \<lparr>script = ''x = 1'' @ [nl] @ start_line 5, stdout = []\<rparr> =
     (Inl UpdNameError, \<lparr>script = ''x = 1'' @ [nl] @ start_line 1000005, stdout = []\<rparr>)"
proof -
  have l: "py_readlines (script \<lparr>script = ''x = 1'' @ [nl] @ start_line 5, stdout = []\<rparr>) = [''x = 1'' @ [nl]] @ [start_line 5] @ []"
    by (simp add: start_line_def py_str_int_def nat_str.simps digit_char_def char_of_def bit_0)
  have o: "\<forall>l \<in> set ([''x = 1'' @ [nl]] @ []). \<not> is_start_line l \<and> \<not> is_end_line l" by (simp add: upd_eval)
  have s: "is_start_line (start_line 5) \<and> line_value (start_line 5) = Inr 5" using start_line_facts by simp
  show ?thesis using update_missing_end [OF l, of 5] o s l by (simp add: increment_def)
qed

text \<open>
  C24. A \<open>START_ID\<close> or \<open>END_ID\<close> line whose value \<open>int()\<close> rejects makes the
  script raise \<open>ValueError\<close> before it writes anything, whatever \<open>START_ID\<close> and
  \<open>END_ID\<close> lines with integer values come before it (as in the shipped layout, a
  bad \<open>END_ID\<close> after a valid \<open>START_ID\<close>): the file is unchanged and the output
  gains only the cap notices of the earlier \<open>END_ID\<close> lines, at most one each.
  \<open>IndexError\<close> is impossible there, since such a line contains \<open>=\<close>.
\<close>

theorem update_bad_value:
  assumes "py_readlines (script w) = pre @ [l] @ post"
    and "is_start_line l \<or> is_end_line l" and "\<forall>n. line_value l \<noteq> Inr n"
    and "\<forall>l \<in> set pre. is_start_line l \<or> is_end_line l \<longrightarrow> (\<exists>n. line_value l = Inr n)"
  shows "\<exists>k. update_script w = (Inl UpdValueError, w\<lparr>stdout := stdout w @ replicate k cap_notice\<rparr>) \<and>
             k \<le> length (filter is_end_line pre)"
proof -
  let ?st0 = "\<lparr>file_lines = pre @ l # post, new_start = None, new_end = None, printed = []\<rparr>"
  have en: "enumerate 0 (pre @ l # post) = enumerate 0 pre @ (length pre, l) # enumerate (Suc (length pre)) post"
    by (simp add: enumerate_append_eq)
  obtain st' k where r: "upd_loop (enumerate 0 pre) ?st0 = (Inr (), st')"
    and p: "printed st' = replicate k cap_notice" and k: "k \<le> length (filter is_end_line pre)"
    using upd_loop_valid [OF assms(4), of 0 ?st0] by auto
  have "upd_loop (enumerate 0 (pre @ l # post)) ?st0 = (Inl UpdValueError, st')"
    unfolding en by (simp del: upd_loop.simps add: upd_loop_append r upd_loop_raise [OF assms(2,3)])
  then have "update_script w = (Inl UpdValueError, w\<lparr>stdout := stdout w @ replicate k cap_notice\<rparr>)"
    using assms(1) p by (simp add: update_script_def)
  with k show ?thesis by blast
qed

theorem update_bad_value_witness:
  "py_readlines (end_line 9816000000 @ ''START_ID = 98e6'') = [end_line 9816000000] @ [''START_ID = 98e6''] @ [] \<and>
   (is_start_line ''START_ID = 98e6'' \<or> is_end_line ''START_ID = 98e6'') \<and>
   (\<forall>n. line_value ''START_ID = 98e6'' \<noteq> Inr n) \<and>
   line_value (end_line 9816000000) = Inr 9816000000 \<and>
   (\<exists>k. update_script \<lparr>script = end_line 9816000000 @ ''START_ID = 98e6'', stdout = []\<rparr> =
      (Inl UpdValueError, \<lparr>script = end_line 9816000000 @ ''START_ID = 98e6'', stdout = replicate k cap_notice\<rparr>) \<and>
      k \<le> length (filter is_end_line [end_line 9816000000]))"
proof -
  have l: "py_readlines (script \<lparr>script = end_line 9816000000 @ ''START_ID = 98e6'', stdout = []\<rparr>) =
      [end_line 9816000000] @ [''START_ID = 98e6''] @ []"
    by (simp add: end_line_def py_str_int_def nat_str.simps digit_char_def char_of_def bit_0)
  have m: "is_start_line ''START_ID = 98e6'' \<or> is_end_line ''START_ID = 98e6''" by (simp add: upd_eval)
  have v: "\<forall>n. line_value ''START_ID = 98e6'' \<noteq> Inr n" by (simp add: upd_eval)
  have p: "\<forall>l \<in> set [end_line 9816000000]. is_start_line l \<or> is_end_line l \<longrightarrow> (\<exists>n. line_value l = Inr n)"
    using end_line_facts by auto
  show ?thesis using update_bad_value [OF l m v p] l m v end_line_facts by simp
qed

text \<open>
  C25. The update never merges or splits lines: whatever it raises, the file it
  leaves has as many lines as the file it read.
\<close>

theorem update_keeps_line_count:
  assumes "update_script w = (r, w')"
  shows "length (py_readlines (script w')) = length (py_readlines (script w))"
proof -
  let ?ls = "py_readlines (script w)"
  obtain r0 st where loop: "upd_loop (enumerate 0 ?ls)
      \<lparr>file_lines = ?ls, new_start = None, new_end = None, printed = []\<rparr> = (r0, st)" by fastforce
  have "lines_wf (file_lines st) \<and> length (file_lines st) = length ?ls"
    using upd_loop_lines [OF loop] lines_wf_py_readlines by simp
  then have wf: "length (py_readlines (concat (file_lines st))) = length ?ls"
    by (simp add: py_readlines_concat)
  show ?thesis
  proof (cases r0)
    case Inl
    with assms loop show ?thesis by (auto simp: update_script_def)
  next
    case Inr
    with assms loop wf show ?thesis
      by (auto simp: update_script_def Let_def split: option.splits)
  qed
qed

theorem update_keeps_line_count_witness:
  "update_script ex_script = (fst (update_script ex_script), snd (update_script ex_script)) \<and>
   length (py_readlines (script (snd (update_script ex_script)))) = length (py_readlines (script ex_script)) \<and>
   length (py_readlines (script ex_script)) = 3"
proof -
  have "length (py_readlines (script ex_script)) = 3" using ex_script_lines by simp
  then show ?thesis using update_keeps_line_count [OF prod.collapse [symmetric], of ex_script] by simp
qed

end
