(* ===== verification/Spec2Isabelle.thy ===== *)
theory Spec2Isabelle
  imports Config ResultIndex FetchWorker Gate Batch RangeUpdate
begin

text \<open>
  \<^bold>\<open>A verification development of tsto-mayhemids.\<close>

  The repository holds two Python scripts. \<open>src/grab_mayhemids.py\<close> enumerates the
  \<open>applicationUserId\<close>s \<open>START_ID .. END_ID\<close>, asks the remote service for each one,
  and saves every \<open><Resources>\<close> answer as
  \<open>applicationUserId_<id>_mayhemId_<m>.xml\<close>, skipping ids whose file exists.
  \<open>src/update.py\<close> advances the two range constants in the first script between runs.
  The parts, and the theory that models each:

  \<^item> \<^bold>\<open>Prelude\<close>: the Python builtins the scripts use, as executable functions:
    \<open>str.split\<close> (\<open>py_split\<close>), list subscription with negative indices
    (\<open>py_index\<close>), \<open>str.endswith\<close>/\<open>startswith\<close>/\<open>strip\<close>, \<open>str(i)\<close> and
    \<open>int(s)\<close> (\<open>py_str_int\<close>, \<open>py_int\<close>, proved inverse), \<open>readlines\<close> (with
    \<open>concat\<close> as \<open>writelines\<close>, proved inverse on well-formed lines).
  \<^item> \<^bold>\<open>Config\<close>: the constants of lines 10--17 and the local \<open>batch_size\<close> of
    line 130 as the record \<open>config\<close>; \<open>default_config\<close> holds the shipped values.
  \<^item> \<^bold>\<open>ResultIndex\<close>: \<open>existing_files_dict\<close> as a map from strings to filenames,
    \<open>load_existing_files\<close> (lines 23--34) over a directory listing, the filename
    template of line 71 (\<open>result_filename\<close>), and the agreement of index and
    directory (\<open>index_agrees\<close>).
  \<^item> \<^bold>\<open>FetchWorker\<close>: \<open>fetch_user_data\<close> (lines 36--111). The service is an
    oracle \<open>network\<close> from id and attempt number to a reply (latency, status, body
    or an aiohttp exception), \<open>ET.fromstring\<close> a parameter \<open>xml_parser\<close>, and
    the state a \<open>world\<close> record: the index, the directory (filename to content) and
    the trace of effects (semaphore acquire and release, requests, sleeps, writes,
    printed lines). \<open>timed_get\<close> is line 50 with both timeouts, \<open>save_response\<close>
    lines 63--77, \<open>attempt\<close> one pass through the \<open>try\<close> block, and
    \<open>fetch_user_data\<close> the skip test, the semaphore and the recursive retry, a
    \<open>function\<close> terminating on \<open>retries\<close>. Exceptions no \<open>except\<close> catches
    are \<open>Inl\<close> values of type \<open>exc\<close>; every \<open>return\<close> is an \<open>outcome\<close>.
  \<^item> \<^bold>\<open>Gate\<close>: the \<open>asyncio.Semaphore\<close> of line 124. Its permits are replayed
    over a worker's trace (\<open>gate_replay\<close>), and the interleaving of the workers of a
    batch is the inductive relation \<open>gate_step\<close> with reachability \<open>gate_reach\<close>
    from \<open>gate_init\<close>, each task following a trace a worker can produce.
  \<^item> \<^bold>\<open>Batch\<close>: \<open>process_users\<close> (lines 113--120, \<open>run_workers\<close>), the batch
    loop of \<open>main\<close> (lines 129--135, \<open>batch_ranges\<close>, \<open>run_batches\<close>) with
    \<open>range()\<close> as \<open>py_range\<close>, and \<open>main\<close> from the startup scan
    (\<open>init_world\<close>) to the last batch. The workers of a batch run one after the other
    in id order; \<open>batch_order_irrelevant\<close> and \<open>main_refines_isolated_workers\<close>
    show that no worker's result or index entry depends on the others, which is what
    lets this order stand for the concurrent schedule of \<open>asyncio.gather\<close>.
  \<^item> \<^bold>\<open>RangeUpdate\<close>: \<open>src/update.py\<close>: the file read as lines, the loop of
    lines 11--26 (\<open>upd_loop\<close> over \<open>enumerate\<close>, with \<open>upd_start\<close> and
    \<open>upd_end\<close>), the write and the final print (\<open>update_script\<close>), its
    \<open>ValueError\<close> and \<open>NameError\<close> as \<open>Inl\<close> values.

  \<^bold>\<open>What is proved\<close> (claim numbers as in the manifest):
  one worker (C1--C8): the skip test, saving, idempotence of saving, terminal
  rejection, the exact attempt count and backoff for connection failures and for
  server errors, the uncaught \<open>ParseError\<close>, preservation of index/directory
  agreement; the retry bound \<open>retries + 1\<close> for every service (C20);
  the global timeout irrelevant while it is at least the request timeout (C29) and other
  client errors escaping the worker (C30);
  the semaphore (C9--C12): a retrying worker holds one permit per level of recursion,
  a lone worker needs \<open>retries + 1\<close> permits, over every interleaving of a batch
  the free and held permits add up to the gate's size and at most that many workers
  are about to send their request (\<open>guarded\<close>: a worker's \<open>Get\<close> comes with a
  permit held), and two retrying workers deadlock a gate of two;
  the driver (C13--C19): ids processed once and in order, a worker exception ending
  the run (the earlier batches finished, the failing one never reported finished, no
  later batch started or requested), agreement and recorded results over a whole
  run, refinement by isolated workers, order independence within a batch, and a
  saved result skipped by the next run; the index (C26--C27): the filename round
  trip and the unchecked template; the update script (C21--C25): its effect on a
  file, two runs in a row, \<open>NameError\<close> after the file is written,
  \<open>ValueError\<close> before it (whatever valid lines precede the bad one), and the line
  count kept; across scripts (C28): after one update of the shipped constants
  \<open>END_ID < START_ID\<close> and the next run processes nothing.

  \<^bold>\<open>Bounds and fixtures.\<close> The batch size is the literal \<open>1000\<close> of line 130
  (its comment says 100); the driver's lemmas assume only that it is positive. No
  fuel is needed: \<open>fetch_user_data\<close> terminates on
  \<open>retries\<close> (a \<open>function\<close> with a measure), \<open>range()\<close> on the distance to the
  bound, every other loop is structural. Witnesses use a service \<open>ex_net\<close> that
  answers id 7 with a non-\<open>Resources\<close> document, id 8 with malformed XML and every
  other id with one 503 and then a \<open>Resources\<close> document, a parser \<open>ex_parse\<close>
  knowing these documents, \<open>small_config\<close> with two retries, ranges of three and
  five ids in batches of two, and the update script reduced to an unrelated line and
  the two shipped constants.

  \<^bold>\<open>Not modelled.\<close> The \<open>__main__\<close> block (lines 137--143: wall-clock timing and
  one print); the operating system behind \<open>os.listdir\<close>, file writes and
  \<open>open\<close> (their contents are given, an I/O error is not modelled); aiohttp and the
  event loop beyond the replies and exceptions of \<open>net_reply\<close> and the
  interleavings of \<open>Gate\<close>; the XML parser beyond the tree it returns; the real
  durations of sleeps and timeouts (a sleep is an effect of the trace, a timeout is a
  reply whose latency exceeds a bound); characters beyond ASCII in \<open>strip\<close>.
\<close>

section \<open>The update script and the next run\<close>

lemma main_empty_range:
  "end_id c < start_id c \<Longrightarrow> 0 < batch_size c \<Longrightarrow>
   main c net parse listing files0 = (Inr [], init_world listing files0)"
proof -
  assume lt: "end_id c < start_id c" and pos: "0 < batch_size c"
  have "py_range_step (start_id c) (end_id c + 1) (batch_size c) = []"
    using lt pos by (simp add: py_range_step_pos)
  with pos have "batch_ranges c = Some []" by (simp add: batch_ranges_Some)
  then show ?thesis by (simp add: main_def)
qed

text \<open>
  C28. The cap of \<open>update.py\<close> applies to \<open>END_ID\<close> only. Once
  \<open>START_ID + 1000000\<close> exceeds \<open>1001000000\<close> (the shipped \<open>START_ID\<close> is
  9816000000, so already on the first update), the update writes an \<open>END_ID\<close> below
  the new \<open>START_ID\<close>, and a scraping run with these constants processes no id at all:
  \<open>main\<close> completes at once with no result and no request.
\<close>

theorem update_empties_next_run:
  assumes "py_readlines (script w) = pre @ [ls] @ mid @ [le] @ post"
    and "is_start_line ls" and "line_value ls = Inr s" and "is_end_line le" and "line_value le = Inr e"
    and "\<forall>l \<in> set (pre @ mid @ post). \<not> is_start_line l \<and> \<not> is_end_line l"
    and "max_end_id < s + increment"
    and "start_id c = s + increment" and "end_id c = min (e + increment) max_end_id" and "0 < batch_size c"
  shows "fst (update_script w) = Inr () \<and>
         script (snd (update_script w)) = concat (pre @ [start_line (start_id c)] @ mid @ [end_line (end_id c)] @ post) \<and>
         end_id c < start_id c \<and>
         main c net parse listing files0 = (Inr [], init_world listing files0)"
proof -
  have u: "update_script w =
      (Inr (), w\<lparr>script := concat (pre @ [start_line (s + increment)] @ mid @ [end_line (min (e + increment) max_end_id)] @ post),
                 stdout := stdout w @ (if max_end_id < e + increment then [cap_notice] else []) @
                           [final_notice (s + increment) (min (e + increment) max_end_id)]\<rparr>)"
    using update_script_Inr [OF upd_loop_range [OF assms(2-6), folded assms(1)]] by simp
  have lt: "end_id c < start_id c" using assms(7-9) by simp
  from u lt main_empty_range [OF lt assms(10)] assms(8,9) show ?thesis by simp
qed

theorem update_empties_next_run_witness:
  "py_readlines (script ex_script) = [''x = 1'' @ [nl]] @ [start_line 9816000000] @ [] @ [end_line 9816000000] @ [] \<and>
   script (snd (update_script ex_script)) = ''x = 1'' @ [nl] @ start_line 9817000000 @ end_line 1001000000 \<and>
   main (default_config\<lparr>start_id := 9817000000, end_id := 1001000000\<rparr>) ex_net ex_parse [] Map.empty =
     (Inr [], init_world [] Map.empty)"
proof -
  have s: "is_start_line (start_line 9816000000) \<and> line_value (start_line 9816000000) = Inr 9816000000"
    and e: "is_end_line (end_line 9816000000) \<and> line_value (end_line 9816000000) = Inr 9816000000"
    using start_line_facts end_line_facts by simp_all
  show ?thesis
    using update_empties_next_run [OF ex_script_lines, of 9816000000 9816000000
        "default_config\<lparr>start_id := 9817000000, end_id := 1001000000\<rparr>" ex_net ex_parse "[]" Map.empty]
      s e ex_script_other ex_script_lines
    by (simp add: increment_def max_end_id_def default_config_def)
qed

end
